theory Spec2Isabelle
  imports Main "HOL-Library.Word" "HOL-Library.Multiset"
begin

section \<open>uio\_pci\_generic with MSI-X support: data model\<close>

text \<open>
  The driver in \<^verbatim>\<open>drivers/uio/uio_pci_generic.c\<close>, as built with \<^verbatim>\<open>CONFIG_PCI_MSI\<close>, is
  embedded with explicit state passing. A non-null \<^verbatim>\<open>struct eventfd_ctx *\<close> is its address,
  a 64-bit word; \<^verbatim>\<open>NULL\<close> is \<open>None\<close>. C \<^verbatim>\<open>int\<close> values that are only
  compared (file descriptors, the vector index, error codes, \<^verbatim>\<open>nvecs\<close>) are \<open>int\<close>; the
  fields of \<^verbatim>\<open>struct msix_entry\<close> keep their widths.
\<close>

type_synonym eventfd_ctx = "64 word"
type_synonym irq = "32 word"

record msix_entry =
  vector :: "32 word"
  entry :: "16 word"

record uio_msix_info =
  entries :: "msix_entry list option"
  evts :: "eventfd_ctx option list"
  nvecs :: int

record uio_info =
  info_irq :: int
  irq_shared :: bool
  has_handler :: bool
  has_ioctl :: bool

record uio_pci_generic_dev =
  info :: uio_info
  msix_info :: uio_msix_info

text \<open>
  The part of \<^verbatim>\<open>struct pci_dev\<close> the driver depends on: the legacy line \<^verbatim>\<open>pdev->irq\<close>, the
  enable count kept by \<^verbatim>\<open>pci_enable_device\<close> and \<^verbatim>\<open>pci_disable_device\<close>, the two separate
  message-signalled modes (\<^verbatim>\<open>msi_enabled\<close>, \<^verbatim>\<open>msix_enabled\<close>), and the interrupt status bit and
  the interrupt disable bit of the PCI 2.3 status and command registers.
\<close>

record pci_dev =
  pdev_irq :: nat
  enable_cnt :: nat
  msi_enabled :: bool
  msix_enabled :: bool
  intx_pending :: bool
  intx_disable :: bool

text \<open>
  Every call of the driver that changes kernel or device state is logged, in program order,
  with the result the kernel gave, and so is every write of the driver to a slot of its
  handle table \<^verbatim>\<open>evts\<close> (\<open>SlotWrite\<close>, with the index and the value written). Pure queries
  (\<^verbatim>\<open>pci_msix_vec_count\<close>, \<^verbatim>\<open>pci_intx_mask_supported\<close>) and memory management are not.
\<close>

datatype event =
    PciDisableMsi
  | FreeIrq irq eventfd_ctx
  | EventfdCtxPut eventfd_ctx
  | EventfdCtxFdget int "eventfd_ctx option"
  | SlotWrite int "eventfd_ctx option"
  | RequestIrq irq eventfd_ctx int
  | EventfdSignal eventfd_ctx
  | PciEnableMsixExact int int
  | PciDisableMsix
  | PciEnableDevice int
  | PciDisableDevice
  | PciCheckAndMaskIntx bool
  | UioRegisterDevice int
  | UioUnregisterDevice
  | PciSetDrvdata

text \<open>
  The kernel state around the driver: the device, the handlers registered with
  \<^verbatim>\<open>request_irq\<close> (interrupt number and \<^verbatim>\<open>dev_id\<close>, here always an eventfd context), the
  eventfd references the driver holds (one list element per reference), whether the UIO
  device is registered, and the log.
\<close>

record kernel =
  pdev :: pci_dev
  irq_actions :: "(irq \<times> eventfd_ctx) list"
  held :: "eventfd_ctx list"
  uio_registered :: bool
  drvdata_set :: bool
  trace :: "event list"

text \<open>
  What the platform answers, taken as parameters: the result of \<^verbatim>\<open>pci_enable_device\<close>,
  of \<^verbatim>\<open>pci_intx_mask_supported\<close>, of the two \<^verbatim>\<open>kzalloc\<close> calls, of \<^verbatim>\<open>pci_msix_vec_count\<close>,
  how many vectors the platform can grant and the interrupt number it gives to each table
  entry, the file-descriptor table read by \<^verbatim>\<open>eventfd_ctx_fdget\<close>, and the results of
  \<^verbatim>\<open>request_irq\<close> and \<^verbatim>\<open>uio_register_device\<close>.
\<close>

record platform =
  enable_device_err :: int
  intx_mask_supported :: bool
  kzalloc_gdev_ok :: bool
  msix_vec_count :: int
  kzalloc_ok :: "64 word \<Rightarrow> bool"
  msix_avail :: nat
  msix_irq :: "nat \<Rightarrow> irq"
  fdget :: "int \<Rightarrow> eventfd_ctx option"
  request_irq_err :: "irq \<Rightarrow> int"
  uio_register_err :: int

datatype fault = NullDeref | OutOfBounds

datatype irqreturn_t = IRQ_NONE | IRQ_HANDLED

definition EINVAL :: int where "EINVAL = 22"
definition ENOMEM :: int where "ENOMEM = 12"
definition ENODEV :: int where "ENODEV = 19"
definition ENOSPC :: int where "ENOSPC = 28"
definition EBADF :: int where "EBADF = 9"

text \<open>
  The kernel's error pointers (\<^verbatim>\<open>linux/err.h\<close>, not part of the driver's file and not
  described by the spec): a function that returns a pointer reports the error \<open>-e\<close> as the
  address \<^verbatim>\<open>(unsigned long)-e\<close>, one of the last 4095 addresses (\<^verbatim>\<open>MAX_ERRNO\<close> is 4095), and
  never as \<^verbatim>\<open>NULL\<close>; \<^verbatim>\<open>IS_ERR\<close> is the test for them. \<^verbatim>\<open>eventfd_ctx_fdget\<close> is such a
  function: for a descriptor that is not open it returns \<^verbatim>\<open>ERR_PTR(-EBADF)\<close>, for one that
  is not an eventfd \<^verbatim>\<open>ERR_PTR(-EINVAL)\<close>.
\<close>

definition ERR_PTR :: "int \<Rightarrow> eventfd_ctx" where
  "ERR_PTR err = word_of_int err"

definition IS_ERR :: "eventfd_ctx \<Rightarrow> bool" where
  "IS_ERR p = (- 4095 \<le> p)"

section \<open>Kernel services used by the driver\<close>

text \<open>
  Modelled from the spec: what the kernel services the driver calls do to the state. None
  of them is defined in the driver's file. Sections 3 and 4.3: \<^verbatim>\<open>eventfd_ctx_fdget\<close> takes a
  reference to the handle a descriptor resolves to (none when it returns \<^verbatim>\<open>NULL\<close> or an
  error pointer) and \<^verbatim>\<open>eventfd_ctx_put\<close> drops one;
  \<^verbatim>\<open>request_irq\<close> registers the interrupt path of a vector, closed over its \<^verbatim>\<open>dev_id\<close>, when
  it succeeds, and \<^verbatim>\<open>free_irq(irq, dev_id)\<close> deregisters the one handler registered for
  \<open>irq\<close> with that \<^verbatim>\<open>dev_id\<close>. Section 4.6: \<^verbatim>\<open>pci_enable_device\<close> and \<^verbatim>\<open>pci_disable_device\<close>
  enable the device at the bus level and undo it (an enable count), and
  \<^verbatim>\<open>uio_register_device\<close> registers the binding with the exposer layer. Section 4.2:
  \<^verbatim>\<open>pci_enable_msix_exact\<close> enables vector delivery as a unit and \<^verbatim>\<open>pci_disable_msix\<close>
  disables it.

  The spec has one vector mechanism; the kernel interface the driver is written against has
  two modes, MSI and MSI-X, each with its own flag in \<^verbatim>\<open>struct pci_dev\<close> and its own calls.
  The driver enters MSI-X with \<^verbatim>\<open>pci_enable_msix_exact\<close> and leaves it with
  \<^verbatim>\<open>pci_disable_msix\<close> in \<^verbatim>\<open>remove\<close>; it never enters MSI mode. \<^verbatim>\<open>pci_disable_msi\<close> leaves MSI
  mode and does nothing on a device that is not in it.

  A write to a slot changes the driver's table, not the kernel state. Handing an error
  pointer to \<^verbatim>\<open>eventfd_signal\<close> or \<^verbatim>\<open>eventfd_ctx_put\<close> is an invalid memory access in the
  kernel; here the call is only logged.
\<close>

fun effect :: "event \<Rightarrow> kernel \<Rightarrow> kernel" where
  "effect PciDisableMsi k =
     (if msi_enabled (pdev k) then k\<lparr>pdev := (pdev k)\<lparr>msi_enabled := False\<rparr>\<rparr> else k)"
| "effect (FreeIrq q e) k = k\<lparr>irq_actions := remove1 (q, e) (irq_actions k)\<rparr>"
| "effect (EventfdCtxPut e) k = k\<lparr>held := remove1 e (held k)\<rparr>"
| "effect (EventfdCtxFdget fd r) k =
     (case r of None \<Rightarrow> k | Some e \<Rightarrow> if IS_ERR e then k else k\<lparr>held := e # held k\<rparr>)"
| "effect (SlotWrite i x) k = k"
| "effect (RequestIrq q e err) k =
     (if err = 0 then k\<lparr>irq_actions := irq_actions k @ [(q, e)]\<rparr> else k)"
| "effect (EventfdSignal e) k = k"
| "effect (PciEnableMsixExact n ret) k =
     (if ret = 0 then k\<lparr>pdev := (pdev k)\<lparr>msix_enabled := True\<rparr>\<rparr> else k)"
| "effect PciDisableMsix k = k\<lparr>pdev := (pdev k)\<lparr>msix_enabled := False\<rparr>\<rparr>"
| "effect (PciEnableDevice err) k =
     (if err = 0 then k\<lparr>pdev := (pdev k)\<lparr>enable_cnt := enable_cnt (pdev k) + 1\<rparr>\<rparr> else k)"
| "effect PciDisableDevice k = k\<lparr>pdev := (pdev k)\<lparr>enable_cnt := enable_cnt (pdev k) - 1\<rparr>\<rparr>"
| "effect (PciCheckAndMaskIntx pending) k =
     (if pending then k\<lparr>pdev := (pdev k)\<lparr>intx_disable := True\<rparr>\<rparr> else k)"
| "effect (UioRegisterDevice err) k = (if err = 0 then k\<lparr>uio_registered := True\<rparr> else k)"
| "effect UioUnregisterDevice k = k\<lparr>uio_registered := False\<rparr>"
| "effect PciSetDrvdata k = k\<lparr>drvdata_set := True\<rparr>"

text \<open>A call takes effect and is appended to the log; \<open>run\<close> makes a sequence of calls.\<close>

definition call :: "event \<Rightarrow> kernel \<Rightarrow> kernel" where
  "call ev k = (effect ev k)\<lparr>trace := trace k @ [ev]\<rparr>"

definition run :: "event list \<Rightarrow> kernel \<Rightarrow> kernel" where
  "run evs k = foldl (\<lambda>k' ev. call ev k') k evs"

text \<open>The successive kernel states of a sequence of calls, the starting state first.\<close>

fun states :: "event list \<Rightarrow> kernel \<Rightarrow> kernel list" where
  "states [] k = [k]"
| "states (ev # evs) k = k # states evs (call ev k)"

definition free_irq :: "irq \<Rightarrow> eventfd_ctx \<Rightarrow> kernel \<Rightarrow> kernel" where
  "free_irq q e k = call (FreeIrq q e) k"

definition eventfd_ctx_put :: "eventfd_ctx \<Rightarrow> kernel \<Rightarrow> kernel" where
  "eventfd_ctx_put e k = call (EventfdCtxPut e) k"

definition eventfd_ctx_fdget :: "platform \<Rightarrow> int \<Rightarrow> kernel \<Rightarrow> eventfd_ctx option \<times> kernel" where
  "eventfd_ctx_fdget plat fd k = (fdget plat fd, call (EventfdCtxFdget fd (fdget plat fd)) k)"

definition request_irq :: "platform \<Rightarrow> irq \<Rightarrow> eventfd_ctx \<Rightarrow> kernel \<Rightarrow> int \<times> kernel" where
  "request_irq plat q e k =
     (request_irq_err plat q, call (RequestIrq q e (request_irq_err plat q)) k)"

definition pci_disable_msi :: "kernel \<Rightarrow> kernel" where
  "pci_disable_msi k = call PciDisableMsi k"

definition pci_disable_msix :: "kernel \<Rightarrow> kernel" where
  "pci_disable_msix k = call PciDisableMsix k"

definition eventfd_signal :: "eventfd_ctx \<Rightarrow> kernel \<Rightarrow> kernel" where
  "eventfd_signal e k = call (EventfdSignal e) k"

section \<open>The vector handler and the registry: uio\_msix\_handler, map\_msix\_eventfd\<close>

definition uio_msix_handler :: "irq \<Rightarrow> eventfd_ctx \<Rightarrow> kernel \<Rightarrow> irqreturn_t \<times> kernel" where
  "uio_msix_handler q arg k = (IRQ_HANDLED, eventfd_signal arg k)"

text \<open>The assignment \<^verbatim>\<open>gdev->msix_info.evts[v] = e\<close>: the new table, and the entry in the log.\<close>

definition set_evt :: "uio_pci_generic_dev \<Rightarrow> int \<Rightarrow> eventfd_ctx option \<Rightarrow> uio_pci_generic_dev" where
  "set_evt gdev v e =
     gdev\<lparr>msix_info := (msix_info gdev)\<lparr>evts := (evts (msix_info gdev))[nat v := e]\<rparr>\<rparr>"

definition slot_written :: "int \<Rightarrow> eventfd_ctx option \<Rightarrow> kernel \<Rightarrow> kernel" where
  "slot_written v e k = call (SlotWrite v e) k"

text \<open>
  \<^verbatim>\<open>map_msix_eventfd(gdev, fd, vector)\<close>. The only check on \<^verbatim>\<open>vector\<close> is
  \<^verbatim>\<open>vector >= nvecs\<close>; the array accesses that follow are modelled with what C leaves
  undefined made explicit: \<open>NullDeref\<close> when \<^verbatim>\<open>entries\<close> is \<^verbatim>\<open>NULL\<close>, \<open>OutOfBounds\<close> when
  the index is outside the array. The code takes the lookup to have failed when \<^verbatim>\<open>!evt\<close>,
  that is when \<^verbatim>\<open>eventfd_ctx_fdget\<close> returned \<^verbatim>\<open>NULL\<close>; any other value, an error pointer
  included, goes on to \<^verbatim>\<open>request_irq\<close>. The slot is written after \<^verbatim>\<open>request_irq\<close> has
  returned 0.
\<close>

definition map_msix_eventfd ::
  "platform \<Rightarrow> uio_pci_generic_dev \<Rightarrow> kernel \<Rightarrow> int \<Rightarrow> int
     \<Rightarrow> fault + (int \<times> uio_pci_generic_dev \<times> kernel)" where
  "map_msix_eventfd plat gdev k fd v =
     (if fd < 0 then Inr (0, gdev, pci_disable_msi k)
      else if v \<ge> nvecs (msix_info gdev) then Inr (- EINVAL, gdev, k)
      else case entries (msix_info gdev) of
        None \<Rightarrow> Inl NullDeref
      | Some es \<Rightarrow>
          if v < 0 \<or> int (length es) \<le> v then Inl OutOfBounds
          else if int (length (evts (msix_info gdev))) \<le> v then Inl OutOfBounds
          else
            let q = vector (es ! nat v);
                old = evts (msix_info gdev) ! nat v;
                gdev1 = (case old of None \<Rightarrow> gdev | Some e \<Rightarrow> set_evt gdev v None);
                k1 = (case old of
                        None \<Rightarrow> k
                      | Some e \<Rightarrow> slot_written v None (eventfd_ctx_put e (free_irq q e k)));
                (new, k2) = eventfd_ctx_fdget plat fd k1
            in (case new of
                  None \<Rightarrow> Inr (- EINVAL, gdev1, k2)
                | Some e' \<Rightarrow>
                    let (err, k3) = request_irq plat q e' k2
                    in if err \<noteq> 0 then Inr (err, gdev1, eventfd_ctx_put e' k3)
                       else Inr (0, set_evt gdev1 v (Some e'),
                                 slot_written v (Some e') k3)))"

text \<open>
  Modelled from the spec: the dispatch of a hardware interrupt by the kernel's interrupt
  core, which is not part of the driver's file. Section 4.5: one handler instance is
  registered per vector, closed over the notification handle given at registration; on
  firing it runs once. So a firing of interrupt \<open>q\<close> runs \<open>uio_msix_handler\<close> once for every
  registration made for \<open>q\<close>, with the \<^verbatim>\<open>dev_id\<close> of that registration.
\<close>

definition deliver_irq :: "irq \<Rightarrow> kernel \<Rightarrow> kernel" where
  "deliver_irq q k =
     foldl (\<lambda>k' (q', e). if q' = q then snd (uio_msix_handler q' e k') else k') k (irq_actions k)"

fun signals :: "event list \<Rightarrow> eventfd_ctx list" where
  "signals [] = []"
| "signals (EventfdSignal e # evs) = e # signals evs"
| "signals (_ # evs) = signals evs"

section \<open>The vector table allocator: pci\_generic\_init\_msix\<close>

text \<open>
  The size passed to \<^verbatim>\<open>kzalloc\<close>: \<^verbatim>\<open>nvecs\<close> is converted to \<^verbatim>\<open>size_t\<close> and multiplied
  modulo \<open>2 ^ 64\<close> by \<^verbatim>\<open>sizeof(struct msix_entry) + sizeof(struct eventfd_ctx *)\<close>, which is
  \<open>8 + 8\<close> on x86-64.
\<close>

definition kzalloc_size :: "int \<Rightarrow> 64 word" where
  "kzalloc_size n = word_of_int n * (8 + 8)"

text \<open>The loop \<^verbatim>\<open>for (i = 0; i < nvecs; ++i) entries[i].entry = i;\<close>\<close>

function entries_loop :: "int \<Rightarrow> int \<Rightarrow> msix_entry list \<Rightarrow> msix_entry list" where
  "entries_loop i n es =
     (if i < n then entries_loop (i + 1) n (es[nat i := (es ! nat i)\<lparr>entry := word_of_int i\<rparr>])
      else es)"
  by pat_completeness auto
termination
  by (relation "measure (\<lambda>(i, n, es). nat (n - i))") auto

text \<open>
  Modelled from the spec: \<^verbatim>\<open>pci_enable_msix_exact\<close>, of the kernel's PCI core and not part
  of the driver's file. Section 4.2: exactly the requested number of vectors is asked of
  the platform; when the platform can grant fewer, the whole request fails, nothing stays
  granted and vector delivery stays disabled; when it succeeds, vector delivery is enabled
  as a unit and every entry of the array receives its interrupt number. A request for
  fewer than one vector, or on a device whose vector delivery is already enabled, is
  rejected.
\<close>

definition pci_enable_msix_exact ::
  "platform \<Rightarrow> msix_entry list \<Rightarrow> int \<Rightarrow> kernel \<Rightarrow> int \<times> msix_entry list \<times> kernel" where
  "pci_enable_msix_exact plat es nvec k =
     (if nvec < 1 \<or> msix_enabled (pdev k) then
        (- EINVAL, es, call (PciEnableMsixExact nvec (- EINVAL)) k)
      else if int (msix_avail plat) < nvec then
        (- ENOSPC, es, call (PciEnableMsixExact nvec (- ENOSPC)) k)
      else
        (0, map (\<lambda>en. en\<lparr>vector := msix_irq plat (unat (entry en))\<rparr>) es,
         call (PciEnableMsixExact nvec 0) k))"

definition pci_generic_init_msix ::
  "platform \<Rightarrow> uio_pci_generic_dev \<Rightarrow> kernel \<Rightarrow> int \<times> uio_pci_generic_dev \<times> kernel" where
  "pci_generic_init_msix plat gdev k =
     (let n = msix_vec_count plat in
      if n = 0 then (- EINVAL, gdev, k)
      else if \<not> kzalloc_ok plat (kzalloc_size n) then (- ENOMEM, gdev, k)
      else
        let es0 = replicate (nat n) \<lparr>vector = 0, entry = 0\<rparr>;
            ev0 = replicate (nat n) None;
            es1 = entries_loop 0 n es0;
            (ret, es2, k1) = pci_enable_msix_exact plat es1 n k
        in if ret < 0
           then (ret, gdev\<lparr>msix_info := \<lparr>entries = None, evts = ev0, nvecs = n\<rparr>\<rparr>, k1)
           else (ret, gdev\<lparr>msix_info := \<lparr>entries = Some es2, evts = ev0, nvecs = n\<rparr>\<rparr>, k1))"

section \<open>The legacy-line handler: irqhandler\<close>

text \<open>
  Modelled from the spec: \<^verbatim>\<open>pci_check_and_mask_intx\<close>, of the kernel's PCI core and not
  part of the driver's file. Section 4.4: it inspects the device's own pending bit; when
  the bit is clear it returns false and changes nothing; when it is set it masks further
  delivery at the device (the interrupt disable bit of the command register) in one step
  and returns true.
\<close>

definition pci_check_and_mask_intx :: "kernel \<Rightarrow> bool \<times> kernel" where
  "pci_check_and_mask_intx k =
     (intx_pending (pdev k), call (PciCheckAndMaskIntx (intx_pending (pdev k))) k)"

definition irqhandler :: "kernel \<Rightarrow> irqreturn_t \<times> kernel" where
  "irqhandler k =
     (let (pending, k1) = pci_check_and_mask_intx k
      in if \<not> pending then (IRQ_NONE, k1) else (IRQ_HANDLED, k1))"

section \<open>The device lifecycle: probe, remove\<close>

definition pci_enable_device :: "platform \<Rightarrow> kernel \<Rightarrow> int \<times> kernel" where
  "pci_enable_device plat k =
     (enable_device_err plat, call (PciEnableDevice (enable_device_err plat)) k)"

definition pci_disable_device :: "kernel \<Rightarrow> kernel" where
  "pci_disable_device k =
     call PciDisableDevice k"

definition uio_register_device ::
  "platform \<Rightarrow> uio_pci_generic_dev \<Rightarrow> kernel \<Rightarrow> int \<times> kernel" where
  "uio_register_device plat gdev k =
     (uio_register_err plat, call (UioRegisterDevice (uio_register_err plat)) k)"

definition uio_unregister_device :: "kernel \<Rightarrow> kernel" where
  "uio_unregister_device k = call UioUnregisterDevice k"

definition pci_set_drvdata :: "kernel \<Rightarrow> kernel" where
  "pci_set_drvdata k = call PciSetDrvdata k"

text \<open>The object returned by \<^verbatim>\<open>kzalloc(sizeof(struct uio_pci_generic_dev))\<close>: all zero.\<close>

definition gdev_zero :: uio_pci_generic_dev where
  "gdev_zero =
     \<lparr>info = \<lparr>info_irq = 0, irq_shared = False, has_handler = False, has_ioctl = False\<rparr>,
      msix_info = \<lparr>entries = None, evts = [], nvecs = 0\<rparr>\<rparr>"

text \<open>
  \<^verbatim>\<open>probe\<close>, built with \<^verbatim>\<open>CONFIG_PCI_MSI\<close>. The result is the return value, the driver data
  left attached to the device (\<open>None\<close> when the claim failed and \<^verbatim>\<open>gdev\<close> was freed) and the
  kernel state. The value of \<^verbatim>\<open>err\<close> set by \<^verbatim>\<open>pci_generic_init_msix\<close> is only tested for
  the notice and is then overwritten by \<^verbatim>\<open>uio_register_device\<close>.
\<close>

definition probe :: "platform \<Rightarrow> kernel \<Rightarrow> int \<times> uio_pci_generic_dev option \<times> kernel" where
  "probe plat k =
     (let (err, k1) = pci_enable_device plat k in
      if err \<noteq> 0 then (err, None, k1)
      else if pdev_irq (pdev k1) \<noteq> 0 \<and> \<not> intx_mask_supported plat
        then (- ENODEV, None, pci_disable_device k1)
      else if \<not> kzalloc_gdev_ok plat
        then (- ENOMEM, None, pci_disable_device k1)
      else
        let gdev0 = gdev_zero\<lparr>info := (info gdev_zero)\<lparr>has_ioctl := True\<rparr>\<rparr>;
            (gdev1, k2) =
              (if pdev_irq (pdev k1) \<noteq> 0
               then (gdev0\<lparr>info := (info gdev0)\<lparr>info_irq := int (pdev_irq (pdev k1)),
                                                 irq_shared := True, has_handler := True\<rparr>\<rparr>, k1)
               else (let (err_msix, g, k') = pci_generic_init_msix plat gdev0 k1 in (g, k')));
            (err', k3) = uio_register_device plat gdev1 k2
        in if err' \<noteq> 0 then (err', None, pci_disable_device k3)
           else (0, Some gdev1, pci_set_drvdata k3))"

text \<open>The loop of \<^verbatim>\<open>remove\<close> over the vector table, from index \<open>i\<close>.\<close>

function remove_loop ::
  "int \<Rightarrow> uio_pci_generic_dev \<Rightarrow> kernel \<Rightarrow> fault + (uio_pci_generic_dev \<times> kernel)" where
  "remove_loop i gdev k =
     (if i < nvecs (msix_info gdev) then
        (case entries (msix_info gdev) of
           None \<Rightarrow> Inl NullDeref
         | Some es \<Rightarrow>
             if i < 0 \<or> int (length es) \<le> i \<or> int (length (evts (msix_info gdev))) \<le> i
             then Inl OutOfBounds
             else
               (case evts (msix_info gdev) ! nat i of
                  None \<Rightarrow> remove_loop (i + 1) gdev k
                | Some e \<Rightarrow>
                    remove_loop (i + 1) (set_evt gdev i None)
                      (slot_written i None
                         (eventfd_ctx_put e (free_irq (vector (es ! nat i)) e k)))))
      else Inr (gdev, k))"
  by pat_completeness auto
termination
  by (relation "measure (\<lambda>(i, gdev, k). nat (nvecs (msix_info gdev) - i))")
     (auto simp: set_evt_def)

text \<open>
  \<^verbatim>\<open>remove\<close> (named \<open>remove_pci\<close> here). \<^verbatim>\<open>gdev\<close> is freed at the end, so only the kernel
  state is returned.
\<close>

definition remove_pci :: "uio_pci_generic_dev \<Rightarrow> kernel \<Rightarrow> fault + kernel" where
  "remove_pci gdev k =
     (let k0 = uio_unregister_device k in
      case entries (msix_info gdev) of
        None \<Rightarrow> Inr (pci_disable_device k0)
      | Some es \<Rightarrow>
          (case remove_loop 0 gdev k0 of
             Inl f \<Rightarrow> Inl f
           | Inr (gdev', k1) \<Rightarrow> Inr (pci_disable_device (pci_disable_msix k1))))"

section \<open>Notions used to state the properties\<close>

text \<open>The handles a firing of interrupt \<open>q\<close> signals: the \<^verbatim>\<open>dev_id\<close>s registered for \<open>q\<close>.\<close>

definition handlers_on :: "irq \<Rightarrow> kernel \<Rightarrow> eventfd_ctx list" where
  "handlers_on q k = map snd (filter (\<lambda>a. fst a = q) (irq_actions k))"

text \<open>
  Every registered handler is closed over a handle the driver still holds a reference to,
  counted with multiplicity: no handler can signal a released handle.
\<close>

definition live :: "kernel \<Rightarrow> bool" where
  "live k = (mset (map snd (irq_actions k)) \<subseteq># mset (held k))"

text \<open>
  The vector table as \<^verbatim>\<open>pci_generic_init_msix\<close> leaves it on success: \<^verbatim>\<open>entries\<close> and
  \<^verbatim>\<open>evts\<close> are arrays of \<^verbatim>\<open>nvecs\<close> elements.
\<close>

definition table_ok :: "uio_pci_generic_dev \<Rightarrow> msix_entry list \<Rightarrow> bool" where
  "table_ok gdev es =
     (entries (msix_info gdev) = Some es \<and> int (length es) = nvecs (msix_info gdev) \<and>
      length (evts (msix_info gdev)) = length es)"

text \<open>The registrations the bound slots of a table stand for, in slot order.\<close>

fun slot_regs :: "msix_entry list \<Rightarrow> eventfd_ctx option list \<Rightarrow> (irq \<times> eventfd_ctx) list" where
  "slot_regs (en # es) (Some e # evs) = (vector en, e) # slot_regs es evs"
| "slot_regs (en # es) (None # evs) = slot_regs es evs"
| "slot_regs _ _ = []"

text \<open>What the slot writes of a log, replayed in order, make of a handle table.\<close>

fun slot_writes :: "event list \<Rightarrow> eventfd_ctx option list \<Rightarrow> eventfd_ctx option list" where
  "slot_writes [] t = t"
| "slot_writes (SlotWrite i x # evs) t = slot_writes evs (t[nat i := x])"
| "slot_writes (_ # evs) t = slot_writes evs t"

text \<open>
  The calls that unbind the bound slots of a table one after the other, in slot order: for
  each bound slot, \<^verbatim>\<open>free_irq\<close>, then \<^verbatim>\<open>eventfd_ctx_put\<close>, then the slot is emptied. The first
  argument is the index of the first slot.
\<close>

fun unbind_calls :: "int \<Rightarrow> msix_entry list \<Rightarrow> eventfd_ctx option list \<Rightarrow> event list" where
  "unbind_calls i (en # es) (Some e # evs) =
     FreeIrq (vector en) e # EventfdCtxPut e # SlotWrite i None # unbind_calls (i + 1) es evs"
| "unbind_calls i (en # es) (None # evs) = unbind_calls (i + 1) es evs"
| "unbind_calls i _ _ = []"

definition regs_match :: "uio_pci_generic_dev \<Rightarrow> msix_entry list \<Rightarrow> kernel \<Rightarrow> bool" where
  "regs_match gdev es k = (mset (irq_actions k) = mset (slot_regs es (evts (msix_info gdev))))"

text \<open>
  A sequence of calls deregisters first and releases afterwards when, among its
  \<^verbatim>\<open>free_irq\<close> and \<^verbatim>\<open>eventfd_ctx_put\<close> calls, no \<^verbatim>\<open>free_irq\<close> comes after an
  \<^verbatim>\<open>eventfd_ctx_put\<close>.
\<close>

fun is_free_irq :: "event \<Rightarrow> bool" where
  "is_free_irq (FreeIrq q e) = True"
| "is_free_irq _ = False"

fun is_put :: "event \<Rightarrow> bool" where
  "is_put (EventfdCtxPut e) = True"
| "is_put _ = False"

definition frees_then_puts :: "event list \<Rightarrow> bool" where
  "frees_then_puts evs = (filter is_free_irq (dropWhile (\<lambda>ev. \<not> is_put ev) evs) = [])"

section \<open>A device with four vectors\<close>

text \<open>
  A platform that grants four vectors, numbered 40 to 43, and a consumer whose descriptors
  3, 4 and 5 are eventfds (contexts 100, 101 and 102); no other descriptor is open, and
  for these the lookup answers as \<^verbatim>\<open>eventfd_ctx_fdget\<close> does, with \<^verbatim>\<open>ERR_PTR(-EBADF)\<close>.
\<close>

definition ex_plat :: platform where
  "ex_plat =
     \<lparr>enable_device_err = 0, intx_mask_supported = True, kzalloc_gdev_ok = True,
      msix_vec_count = 4, kzalloc_ok = (\<lambda>sz. True), msix_avail = 4,
      msix_irq = (\<lambda>i. 40 + of_nat i),
      fdget = (\<lambda>fd. if fd = 3 then Some 100 else if fd = 4 then Some 101
                     else if fd = 5 then Some 102 else Some (ERR_PTR (- EBADF))),
      request_irq_err = (\<lambda>q. 0), uio_register_err = 0\<rparr>"

definition ex_pdev :: pci_dev where
  "ex_pdev =
     \<lparr>pdev_irq = 0, enable_cnt = 0, msi_enabled = False, msix_enabled = False,
      intx_pending = False, intx_disable = False\<rparr>"

definition ex_kernel :: kernel where
  "ex_kernel =
     \<lparr>pdev = ex_pdev, irq_actions = [], held = [], uio_registered = False,
      drvdata_set = False, trace = []\<rparr>"

text \<open>The state after \<open>probe\<close>.\<close>

definition ex_entries :: "msix_entry list" where
  "ex_entries =
     [\<lparr>vector = 40, entry = 0\<rparr>, \<lparr>vector = 41, entry = 1\<rparr>,
      \<lparr>vector = 42, entry = 2\<rparr>, \<lparr>vector = 43, entry = 3\<rparr>]"

definition ex_gdev :: uio_pci_generic_dev where
  "ex_gdev =
     \<lparr>info = \<lparr>info_irq = 0, irq_shared = False, has_handler = False, has_ioctl = True\<rparr>,
      msix_info = \<lparr>entries = Some ex_entries, evts = [None, None, None, None], nvecs = 4\<rparr>\<rparr>"

definition ex_kernel1 :: kernel where
  "ex_kernel1 =
     \<lparr>pdev = ex_pdev\<lparr>enable_cnt := 1, msix_enabled := True\<rparr>, irq_actions = [], held = [],
      uio_registered = True, drvdata_set = True,
      trace = [PciEnableDevice 0, PciEnableMsixExact 4 0, UioRegisterDevice 0, PciSetDrvdata]\<rparr>"

text \<open>The state after vector 0 is bound to descriptor 3 and vector 2 to descriptor 4.\<close>

definition ex_gdev2 :: uio_pci_generic_dev where
  "ex_gdev2 =
     ex_gdev\<lparr>msix_info := \<lparr>entries = Some ex_entries, evts = [Some 100, None, Some 101, None],
                           nvecs = 4\<rparr>\<rparr>"

definition ex_kernel2 :: kernel where
  "ex_kernel2 =
     ex_kernel1\<lparr>irq_actions := [(40, 100), (42, 101)], held := [101, 100],
       trace := trace ex_kernel1 @
         [EventfdCtxFdget 3 (Some 100), RequestIrq 40 100 0, SlotWrite 0 (Some 100),
          EventfdCtxFdget 4 (Some 101), RequestIrq 42 101 0, SlotWrite 2 (Some 101)]\<rparr>"

text \<open>A device with a legacy line (interrupt 11) that lacks the interrupt disable bit.\<close>

definition ex_legacy_kernel :: kernel where
  "ex_legacy_kernel = ex_kernel\<lparr>pdev := ex_pdev\<lparr>pdev_irq := 11\<rparr>\<rparr>"

definition ex_plat_nomask :: platform where
  "ex_plat_nomask = ex_plat\<lparr>intx_mask_supported := False\<rparr>"

text \<open>A platform that can grant only two of the four vectors the device reports.\<close>

definition ex_plat_two :: platform where
  "ex_plat_two = ex_plat\<lparr>msix_avail := 2\<rparr>"

section \<open>Basic facts about calls\<close>

lemma trace_call [simp]: "trace (call ev k) = trace k @ [ev]"
  by (simp add: call_def)

lemma run_Nil [simp]: "run [] k = k"
  by (simp add: run_def)

lemma run_Cons [simp]: "run (ev # evs) k = run evs (call ev k)"
  by (simp add: run_def)

lemma run_append: "run (evs @ evs') k = run evs' (run evs k)"
  by (simp add: run_def)

lemma trace_run [simp]: "trace (run evs k) = trace k @ evs"
  by (induction evs arbitrary: k) simp_all

lemma last_states: "last (states evs k) = run evs k"
  by (induction evs arbitrary: k) (simp_all, metis list.distinct(1) states.elims)

lemma ex_reachable_probe: "probe ex_plat ex_kernel = (0, Some ex_gdev, ex_kernel1)"
  by code_simp

lemma ex_reachable_bind:
  "(case map_msix_eventfd ex_plat ex_gdev ex_kernel1 3 0 of
      Inl f \<Rightarrow> Inl f
    | Inr (r, g, k) \<Rightarrow> map_msix_eventfd ex_plat g k 4 2) = Inr (0, ex_gdev2, ex_kernel2)"
  by code_simp

section \<open>The outcomes of map\_msix\_eventfd\<close>

lemma set_evt_same: "set_evt gdev v (evts (msix_info gdev) ! nat v) = gdev"
  by (simp add: set_evt_def)

lemma set_evt_twice [simp]: "set_evt (set_evt gdev v e) v e' = set_evt gdev v e'"
  by (simp add: set_evt_def)

text \<open>
  With a non-negative descriptor and an index inside a well-formed table, the call
  returns, and its result, the table and the calls made are determined by the slot's
  content, the lookup and \<^verbatim>\<open>request_irq\<close>.
\<close>

lemma bind_outcome:
  assumes ok: "table_ok gdev es" and fd: "0 \<le> fd" and v: "0 \<le> v" "v < nvecs (msix_info gdev)"
  shows "map_msix_eventfd plat gdev k fd v =
     (let q = vector (es ! nat v);
          err = request_irq_err plat q;
          pre = (case evts (msix_info gdev) ! nat v of
                   None \<Rightarrow> []
                 | Some old \<Rightarrow> [FreeIrq q old, EventfdCtxPut old, SlotWrite v None])
      in case fdget plat fd of
           None \<Rightarrow>
             Inr (- EINVAL, set_evt gdev v None, run (pre @ [EventfdCtxFdget fd None]) k)
         | Some new \<Rightarrow>
             if err = 0
             then Inr (0, set_evt gdev v (Some new),
                       run (pre @ [EventfdCtxFdget fd (Some new), RequestIrq q new 0,
                                   SlotWrite v (Some new)]) k)
             else Inr (err, set_evt gdev v None,
                       run (pre @ [EventfdCtxFdget fd (Some new), RequestIrq q new err,
                                   EventfdCtxPut new]) k))"
proof -
  from ok have es: "entries (msix_info gdev) = Some es"
    and len: "int (length es) = nvecs (msix_info gdev)"
    and len': "length (evts (msix_info gdev)) = length es"
    by (simp_all add: table_ok_def)
  from v len have inr: "nat v < length es" by linarith
  show ?thesis
  proof (cases "evts (msix_info gdev) ! nat v")
    case None
    have same: "set_evt gdev v None = gdev"
      using set_evt_same [of gdev v] by (simp add: None)
    from None es fd v len len' inr show ?thesis
      by (simp add: map_msix_eventfd_def Let_def same eventfd_ctx_fdget_def request_irq_def
          eventfd_ctx_put_def slot_written_def split: option.splits)
  next
    case (Some old)
    from Some es fd v len len' inr show ?thesis
      by (simp add: map_msix_eventfd_def Let_def eventfd_ctx_fdget_def request_irq_def
          eventfd_ctx_put_def free_irq_def slot_written_def split: option.splits)
  qed
qed

section \<open>The range check on the vector index\<close>

text \<open>
  An index at or above \<^verbatim>\<open>nvecs\<close> is rejected with \<^verbatim>\<open>-EINVAL\<close> and nothing is touched, for
  every table size, the empty table of a legacy-line device included.
\<close>

lemma bind_index_too_large:
  "0 \<le> fd \<Longrightarrow> nvecs (msix_info gdev) \<le> v \<Longrightarrow>
   map_msix_eventfd plat gdev k fd v = Inr (- EINVAL, gdev, k)"
  by (simp add: map_msix_eventfd_def)

text \<open>
  A negative index passes the check \<^verbatim>\<open>vector >= nvecs\<close> and is used to index
  \<^verbatim>\<open>entries\<close>: the function reads in front of the array.
\<close>

lemma bind_negative_index:
  "table_ok gdev es \<Longrightarrow> 0 \<le> fd \<Longrightarrow> v < 0 \<Longrightarrow>
   map_msix_eventfd plat gdev k fd v = Inl OutOfBounds"
  by (auto simp add: map_msix_eventfd_def table_ok_def)

text \<open>
  Claim C2: for every vector index outside \<open>[0, table length)\<close>, negative ones included,
  bind returns \<^verbatim>\<open>-EINVAL\<close> and reads no slot out of bounds. The code does not do this for a
  negative index. On the four-vector device after \<open>probe\<close>, binding descriptor 3 to vector
  \<open>-1\<close> does not return \<^verbatim>\<open>-EINVAL\<close>: \<open>-1 >= 4\<close> is false, and \<^verbatim>\<open>entries[-1]\<close> is read, in
  front of the array.
\<close>

theorem negative_vector_reads_out_of_bounds:
  "map_msix_eventfd ex_plat ex_gdev ex_kernel1 3 (- 1) = Inl OutOfBounds"
  by code_simp

section \<open>The disable request\<close>

text \<open>
  With a negative descriptor the function calls \<^verbatim>\<open>pci_disable_msi\<close> and returns 0, whatever
  the index; the table is not touched, no handler is deregistered, no reference released,
  and MSI-X stays as it was.
\<close>

lemma bind_disable:
  "fd < 0 \<Longrightarrow> map_msix_eventfd plat gdev k fd v = Inr (0, gdev, call PciDisableMsi k)"
  by (simp add: map_msix_eventfd_def pci_disable_msi_def)

lemma disable_msi_frame:
  "irq_actions (call PciDisableMsi k) = irq_actions k \<and> held (call PciDisableMsi k) = held k \<and>
   msix_enabled (pdev (call PciDisableMsi k)) = msix_enabled (pdev k) \<and>
   intx_disable (pdev (call PciDisableMsi k)) = intx_disable (pdev k)"
  by (simp add: call_def)

text \<open>
  Claim C9: a call with a negative descriptor deconfigures interrupt delivery entirely and
  returns success without touching a slot, whatever the index. The code returns 0 and
  touches no slot, but delivery is not deconfigured: the one call made is
  \<^verbatim>\<open>pci_disable_msi\<close>, for a mode the driver never enters, and no \<^verbatim>\<open>free_irq\<close> is made. On
  the four-vector device with vectors 0 and 2 bound, the call with descriptor \<open>-1\<close> leaves
  MSI-X enabled, both handlers registered and both references held, and a firing of
  vector 0 (interrupt 40) still signals the bound handle 100.
\<close>

theorem disable_leaves_vector_delivery:
  "map_msix_eventfd ex_plat ex_gdev2 ex_kernel2 (- 1) 0
     = Inr (0, ex_gdev2, call PciDisableMsi ex_kernel2) \<and>
   msix_enabled (pdev (call PciDisableMsi ex_kernel2)) \<and>
   irq_actions (call PciDisableMsi ex_kernel2) = [(40, 100), (42, 101)] \<and>
   held (call PciDisableMsi ex_kernel2) = [101, 100] \<and>
   signals (trace (deliver_irq 40 (call PciDisableMsi ex_kernel2)))
     = signals (trace ex_kernel2) @ [100]"
  by code_simp

section \<open>Handlers, references and delivery\<close>

lemma irq_actions_call [simp]:
  "irq_actions (call (EventfdCtxPut e) k) = irq_actions k"
  "irq_actions (call (SlotWrite i x) k) = irq_actions k"
  "irq_actions (call (EventfdCtxFdget fd r) k) = irq_actions k"
  "irq_actions (call (FreeIrq q e) k) = remove1 (q, e) (irq_actions k)"
  "irq_actions (call (RequestIrq q e err) k) =
     (if err = 0 then irq_actions k @ [(q, e)] else irq_actions k)"
  by (simp_all add: call_def split: option.splits)

lemma held_call [simp]:
  "held (call (EventfdCtxPut e) k) = remove1 e (held k)"
  "held (call (EventfdCtxFdget fd r) k) =
     (case r of None \<Rightarrow> held k | Some e \<Rightarrow> if IS_ERR e then held k else e # held k)"
  "held (call (SlotWrite i x) k) = held k"
  "held (call (FreeIrq q e) k) = held k"
  "held (call (RequestIrq q e err) k) = held k"
  by (simp_all add: call_def split: option.splits)

lemma filter_remove1_other: "\<not> P x \<Longrightarrow> filter P (remove1 x xs) = filter P xs"
  by (induction xs) auto

lemma map_snd_remove1:
  "\<forall>a \<in> set xs. fst a = q \<Longrightarrow> map snd (remove1 (q, e) xs) = remove1 e (map snd xs)"
  by (induction xs) (auto simp: prod_eq_iff)

lemma handlers_on_free:
  "handlers_on q (call (FreeIrq q' e) k) =
     (if q' = q then remove1 e (handlers_on q k) else handlers_on q k)"
proof (cases "q' = q")
  case True
  have "map snd (remove1 (q, e) (filter (\<lambda>a. fst a = q) (irq_actions k)))
          = remove1 e (map snd (filter (\<lambda>a. fst a = q) (irq_actions k)))"
    by (rule map_snd_remove1) simp
  with True show ?thesis
    by (simp add: handlers_on_def filter_remove1)
next
  case False
  then show ?thesis
    by (simp add: handlers_on_def filter_remove1_other)
qed

lemma handlers_on_call [simp]:
  "handlers_on q (call (EventfdCtxPut e) k) = handlers_on q k"
  "handlers_on q (call (SlotWrite i x) k) = handlers_on q k"
  "handlers_on q (call (EventfdCtxFdget fd r) k) = handlers_on q k"
  "handlers_on q (call (RequestIrq q' e err) k) =
     (if err = 0 \<and> q' = q then handlers_on q k @ [e] else handlers_on q k)"
  by (simp_all add: handlers_on_def)

lemma handlers_on_registered:
  "e \<in> set (handlers_on q k) \<Longrightarrow> (q, e) \<in> set (irq_actions k)"
  by (auto simp: handlers_on_def)

text \<open>A firing of \<open>q\<close> signals exactly the handles registered for \<open>q\<close>, each once.\<close>

lemma signals_append [simp]: "signals (xs @ ys) = signals xs @ signals ys"
  by (induction xs rule: signals.induct) simp_all

lemma signals_map_EventfdSignal [simp]: "signals (map EventfdSignal es) = es"
  by (induction es) simp_all

lemma foldl_handlers_trace:
  "trace (foldl (\<lambda>k' (q', e). if q' = q then snd (uio_msix_handler q' e k') else k') k0 acts)
     = trace k0 @ map EventfdSignal (map snd (filter (\<lambda>a. fst a = q) acts))"
  by (induction acts arbitrary: k0)
     (auto simp: uio_msix_handler_def eventfd_signal_def)

lemma deliver_irq_trace:
  "trace (deliver_irq q k) = trace k @ map EventfdSignal (handlers_on q k)"
  by (simp add: deliver_irq_def handlers_on_def foldl_handlers_trace)

lemma deliver_irq_signals:
  "signals (trace (deliver_irq q k)) = signals (trace k) @ handlers_on q k"
  by (simp add: deliver_irq_trace)

text \<open>How the calls of a bind act on \<open>live\<close>.\<close>

lemma mset_diff_mono: "(A::'a multiset) \<subseteq># B \<Longrightarrow> A - C \<subseteq># B - C"
  by (auto simp add: subseteq_mset_def intro: diff_le_mono)

lemma mset_subset_add_right: "(A::'a multiset) \<subseteq># B \<Longrightarrow> A \<subseteq># add_mset e B"
  by (simp add: subseteq_mset_def le_SucI)

lemma live_free: "live k \<Longrightarrow> live (call (FreeIrq q e) k)"
proof -
  assume lv: "live k"
  have "mset (map snd (remove1 (q, e) (irq_actions k))) \<subseteq># mset (map snd (irq_actions k))"
    by (simp add: image_mset_subseteq_mono)
  with lv show ?thesis
    unfolding live_def by simp
qed

lemma live_free_put:
  assumes "live k" and "(q, e) \<in> set (irq_actions k)"
  shows "live (call (EventfdCtxPut e) (call (FreeIrq q e) k))"
proof -
  from assms(2) have "mset (map snd (remove1 (q, e) (irq_actions k)))
      = mset (map snd (irq_actions k)) - {#e#}"
    by (simp add: image_mset_Diff)
  moreover from assms(1)
  have "mset (map snd (irq_actions k)) - {#e#} \<subseteq># mset (held k) - {#e#}"
    unfolding live_def by (rule mset_diff_mono)
  ultimately show ?thesis
    unfolding live_def by simp
qed

lemma live_fdget: "live k \<Longrightarrow> live (call (EventfdCtxFdget fd r) k)"
  unfolding live_def
  by (cases r) (simp_all add: mset_subset_add_right)

lemma live_slot_written [simp]: "live (call (SlotWrite i x) k) = live k"
  unfolding live_def by simp

lemma live_fdget_request:
  "live k \<Longrightarrow> \<not> IS_ERR e \<Longrightarrow>
   live (call (RequestIrq q e err) (call (EventfdCtxFdget fd (Some e)) k))"
  unfolding live_def by (simp add: mset_subset_add_right)

lemma live_request_failed_put:
  "live k \<Longrightarrow> \<not> IS_ERR e \<Longrightarrow> err \<noteq> 0 \<Longrightarrow>
   live (call (EventfdCtxPut e) (call (RequestIrq q e err) (call (EventfdCtxFdget fd (Some e)) k)))"
  unfolding live_def by simp

section \<open>Rebinding a slot\<close>

lemma slot_writes_append [simp]:
  "slot_writes (xs @ ys) t = slot_writes ys (slot_writes xs t)"
  by (induction xs t rule: slot_writes.induct) simp_all

text \<open>
  Claim C1: a rebind of a slot that holds a handle deregisters the slot's interrupt path
  (\<^verbatim>\<open>free_irq\<close>), then releases the old handle's reference (\<^verbatim>\<open>eventfd_ctx_put\<close>), then
  obtains the new handle, re-registers the interrupt path (\<^verbatim>\<open>request_irq\<close>) and installs
  the new handle; after the call returns the vector handler cannot signal the superseded
  handle, and the interrupt path never sees a half-updated slot.

  The slot \<open>v\<close> of a well-formed table holds \<open>old\<close>, the handler registered for the slot's
  interrupt \<open>q\<close> is the one closed over \<open>old\<close>, and every registered handler is backed by a
  held reference. Then, for every descriptor \<open>fd \<ge> 0\<close> and whatever the lookup and
  \<^verbatim>\<open>request_irq\<close> answer, the call returns, and the calls and slot writes it made are
  exactly \<open>cs\<close>, in this order: \<^verbatim>\<open>free_irq(q, old)\<close>, \<^verbatim>\<open>eventfd_ctx_put(old)\<close>, the slot is
  emptied, \<^verbatim>\<open>eventfd_ctx_fdget(fd)\<close>, then, when the lookup gave a pointer, \<^verbatim>\<open>request_irq\<close>
  for it, and last either the write of the new handle into the slot (when \<^verbatim>\<open>request_irq\<close>
  returned 0) or a release of the new handle (when it failed).

  The table the call returns is the old one with slot \<open>v\<close> holding \<open>installed\<close>: the new
  handle when \<^verbatim>\<open>request_irq\<close> returned 0, nothing otherwise; it is what the slot writes of
  \<open>cs\<close> make of the old table. After the call a firing of \<open>q\<close> signals the installed handle
  and nothing else. From the first call on, in every state the kernel goes through, the
  only handle a firing of \<open>q\<close> can signal is the installed one: the superseded handle is
  never signalled again (unless the descriptor resolves to the very same context, which is
  then the installed one), and a handler for \<open>q\<close> is registered only in the states after a
  successful \<^verbatim>\<open>request_irq\<close>. When the lookup did not answer with an error pointer, each
  registered handler is backed by a held reference in every one of these states.
\<close>

theorem rebind_order:
  assumes ok: "table_ok gdev es" and fd: "0 \<le> fd" and v: "0 \<le> v" "v < nvecs (msix_info gdev)"
    and bound: "evts (msix_info gdev) ! nat v = Some old"
    and reg: "handlers_on (vector (es ! nat v)) k = [old]"
    and lv: "live k"
  shows "let q = vector (es ! nat v);
             err = request_irq_err plat q;
             new = fdget plat fd;
             installed = (if err = 0 then new else None);
             gdev' = gdev\<lparr>msix_info :=
                       (msix_info gdev)\<lparr>evts := (evts (msix_info gdev))[nat v := installed]\<rparr>\<rparr>;
             cs = [FreeIrq q old, EventfdCtxPut old, SlotWrite v None, EventfdCtxFdget fd new] @
                  (case new of
                     None \<Rightarrow> []
                   | Some e \<Rightarrow>
                       RequestIrq q e err #
                       (if err = 0 then [SlotWrite v (Some e)] else [EventfdCtxPut e]))
         in map_msix_eventfd plat gdev k fd v =
              Inr (case new of None \<Rightarrow> - EINVAL | Some e \<Rightarrow> err, gdev', run cs k) \<and>
            evts (msix_info gdev') ! nat v = installed \<and>
            evts (msix_info gdev') = slot_writes cs (evts (msix_info gdev)) \<and>
            trace (deliver_irq q (run cs k)) =
              trace k @ cs @ (case installed of None \<Rightarrow> [] | Some e \<Rightarrow> [EventfdSignal e]) \<and>
            list_all (\<lambda>k'. set (handlers_on q k') \<subseteq> set_option installed) (tl (states cs k)) \<and>
            list_all (\<lambda>k'. handlers_on q k' = []) (take 4 (tl (states cs k))) \<and>
            ((\<forall>e. new = Some e \<longrightarrow> \<not> IS_ERR e) \<longrightarrow> list_all live (states cs k))"
proof -
  define q where "q = vector (es ! nat v)"
  define k1 where "k1 = call (FreeIrq q old) k"
  define k2 where "k2 = call (EventfdCtxPut old) k1"
  define k3 where "k3 = call (SlotWrite v None) k2"
  from ok v have inr: "nat v < length (evts (msix_info gdev))"
    by (simp add: table_ok_def) linarith
  from reg have "(q, old) \<in> set (irq_actions k)"
    by (simp add: q_def handlers_on_registered)
  with lv have l1: "live k1" and l2: "live k2" and l3: "live k3"
    by (simp_all add: k1_def k2_def k3_def live_free live_free_put)
  from reg have h1: "handlers_on q k1 = []"
    by (simp add: k1_def q_def handlers_on_free)
  then have h2: "handlers_on q k2 = []" and h3: "handlers_on q k3 = []"
    by (simp_all add: k2_def k3_def)
  note facts = k1_def [symmetric] k2_def [symmetric] k3_def [symmetric] q_def [symmetric]
  note out = bind_outcome [OF ok fd v, of plat k, unfolded bound, folded q_def]
  show ?thesis
  proof (cases "fdget plat fd")
    case None
    with out inr l1 l2 l3 h1 h2 h3 lv show ?thesis
      by (simp add: Let_def facts live_fdget deliver_irq_trace set_evt_def)
  next
    case (Some e)
    show ?thesis
    proof (cases "request_irq_err plat q = 0")
      case True
      with Some out inr l1 l2 l3 h1 h2 h3 lv show ?thesis
        by (simp add: Let_def facts live_fdget live_fdget_request deliver_irq_trace
            set_evt_def)
    next
      case False
      with Some out inr l1 l2 l3 h1 h2 h3 lv show ?thesis
        by (simp add: Let_def facts live_fdget live_fdget_request live_request_failed_put
            deliver_irq_trace set_evt_def)
    qed
  qed
qed

text \<open>
  On the four-vector device, vector 0 holds handle 100; rebinding it to descriptor 5
  (handle 102) makes the calls and the two slot writes in order, leaves 102 in slot 0 and
  the other slots as they were, and a firing of interrupt 40 then signals 102.
\<close>

theorem rebind_order_witness:
  "table_ok ex_gdev2 ex_entries \<and> evts (msix_info ex_gdev2) ! nat 0 = Some 100 \<and>
   handlers_on (vector (ex_entries ! nat 0)) ex_kernel2 = [100] \<and> live ex_kernel2 \<and>
   map_msix_eventfd ex_plat ex_gdev2 ex_kernel2 5 0 =
     Inr (0,
          ex_gdev2\<lparr>msix_info :=
            (msix_info ex_gdev2)\<lparr>evts := [Some 102, None, Some 101, None]\<rparr>\<rparr>,
          run [FreeIrq 40 100, EventfdCtxPut 100, SlotWrite 0 None,
               EventfdCtxFdget 5 (Some 102), RequestIrq 40 102 0, SlotWrite 0 (Some 102)]
            ex_kernel2) \<and>
   trace (deliver_irq 40
            (run [FreeIrq 40 100, EventfdCtxPut 100, SlotWrite 0 None,
                  EventfdCtxFdget 5 (Some 102), RequestIrq 40 102 0, SlotWrite 0 (Some 102)]
               ex_kernel2)) =
     trace ex_kernel2 @
       [FreeIrq 40 100, EventfdCtxPut 100, SlotWrite 0 None, EventfdCtxFdget 5 (Some 102),
        RequestIrq 40 102 0, SlotWrite 0 (Some 102), EventfdSignal 102] \<and>
   list_all live
     (states [FreeIrq 40 100, EventfdCtxPut 100, SlotWrite 0 None,
              EventfdCtxFdget 5 (Some 102), RequestIrq 40 102 0, SlotWrite 0 (Some 102)]
        ex_kernel2)"
proof -
  have a: "table_ok ex_gdev2 ex_entries"
    by (simp add: table_ok_def ex_gdev2_def ex_gdev_def ex_entries_def)
  have b: "evts (msix_info ex_gdev2) ! nat 0 = Some 100"
    by (simp add: ex_gdev2_def)
  have b': "evts (msix_info ex_gdev2) = [Some 100, None, Some 101, None]"
    by (simp add: ex_gdev2_def)
  have q: "vector (ex_entries ! 0) = 40"
    by (simp add: ex_entries_def)
  have c: "handlers_on (vector (ex_entries ! nat 0)) ex_kernel2 = [100]"
    by (simp add: q handlers_on_def ex_kernel2_def)
  have d: "live ex_kernel2"
    by (simp add: live_def ex_kernel2_def)
  have v: "(0::int) < nvecs (msix_info ex_gdev2)"
    by (simp add: ex_gdev2_def)
  have e: "fdget ex_plat 5 = Some 102" "request_irq_err ex_plat 40 = 0" "\<not> IS_ERR 102"
    by (simp_all add: ex_plat_def IS_ERR_def)
  from rebind_order [OF a _ _ v b c d, of 5 ex_plat] a b c d show ?thesis
    by (simp add: q e b' Let_def)
qed

section \<open>A lookup that fails\<close>

text \<open>
  When the lookup answers with an error pointer the test \<^verbatim>\<open>!evt\<close> does not fire: the call
  goes on to \<^verbatim>\<open>request_irq\<close> with the error pointer as \<^verbatim>\<open>dev_id\<close> and, when that returns 0,
  writes the error pointer into the slot and returns 0. No reference was taken for it.
\<close>

lemma bind_error_pointer:
  assumes ok: "table_ok gdev es" and fd: "0 \<le> fd" and v: "0 \<le> v" "v < nvecs (msix_info gdev)"
    and lookup: "fdget plat fd = Some p" and p: "IS_ERR p"
    and req: "request_irq_err plat (vector (es ! nat v)) = 0"
  shows "\<exists>k'. map_msix_eventfd plat gdev k fd v = Inr (0, set_evt gdev v (Some p), k') \<and>
              evts (msix_info (set_evt gdev v (Some p))) ! nat v = Some p \<and>
              p \<in> set (handlers_on (vector (es ! nat v)) k') \<and>
              count (mset (held k')) p \<le> count (mset (held k)) p"
proof -
  from ok v have inr: "nat v < length (evts (msix_info gdev))"
    by (simp add: table_ok_def) linarith
  note out = bind_outcome [OF ok fd v, of plat k]
  show ?thesis
  proof (cases "evts (msix_info gdev) ! nat v")
    case None
    with out lookup p req inr show ?thesis
      by (simp add: Let_def set_evt_def)
  next
    case (Some old)
    have "count (mset (remove1 old (held k))) p \<le> count (mset (held k)) p"
      by (cases "old \<in> set (held k)") simp_all
    with Some out lookup p req inr show ?thesis
      by (simp add: Let_def set_evt_def handlers_on_free)
  qed
qed

text \<open>
  Claim C3: when the lookup of the descriptor fails, bind fails with \<^verbatim>\<open>InvalidHandleError\<close>
  and the slot is left as it was, the old handle still installed, registered and
  referenced. The code does not do this. \<^verbatim>\<open>eventfd_ctx_fdget\<close> reports a failed lookup with
  an error pointer, the code tests the result against \<^verbatim>\<open>NULL\<close> only, and so the failure is
  not noticed. On the four-vector device, vector 0 holds handle 100 and descriptor 9 is not
  open. Binding vector 0 to descriptor 9 returns 0, not \<^verbatim>\<open>-EINVAL\<close>: handle 100 is
  deregistered and released, and \<^verbatim>\<open>ERR_PTR(-EBADF)\<close> is registered as the \<^verbatim>\<open>dev_id\<close> of
  interrupt 40 and written into slot 0, with no reference behind it; a firing of interrupt
  40 then hands the error pointer to \<^verbatim>\<open>eventfd_signal\<close>.
\<close>

theorem failed_lookup_installs_error_pointer:
  "fdget ex_plat 9 = Some (ERR_PTR (- EBADF)) \<and>
   ERR_PTR (- EBADF) = 0xfffffffffffffff7 \<and>
   IS_ERR (ERR_PTR (- EBADF)) \<and>
   evts (msix_info ex_gdev2) = [Some 100, None, Some 101, None] \<and>
   map_msix_eventfd ex_plat ex_gdev2 ex_kernel2 9 0 =
     Inr (0,
          ex_gdev2\<lparr>msix_info := (msix_info ex_gdev2)
            \<lparr>evts := [Some (ERR_PTR (- EBADF)), None, Some 101, None]\<rparr>\<rparr>,
          run [FreeIrq 40 100, EventfdCtxPut 100, SlotWrite 0 None,
               EventfdCtxFdget 9 (Some (ERR_PTR (- EBADF))),
               RequestIrq 40 (ERR_PTR (- EBADF)) 0,
               SlotWrite 0 (Some (ERR_PTR (- EBADF)))] ex_kernel2) \<and>
   irq_actions
     (run [FreeIrq 40 100, EventfdCtxPut 100, SlotWrite 0 None,
           EventfdCtxFdget 9 (Some (ERR_PTR (- EBADF))),
           RequestIrq 40 (ERR_PTR (- EBADF)) 0,
           SlotWrite 0 (Some (ERR_PTR (- EBADF)))] ex_kernel2) =
     [(42, 101), (40, ERR_PTR (- EBADF))] \<and>
   held
     (run [FreeIrq 40 100, EventfdCtxPut 100, SlotWrite 0 None,
           EventfdCtxFdget 9 (Some (ERR_PTR (- EBADF))),
           RequestIrq 40 (ERR_PTR (- EBADF)) 0,
           SlotWrite 0 (Some (ERR_PTR (- EBADF)))] ex_kernel2) = [101] \<and>
   signals (trace (deliver_irq 40
     (run [FreeIrq 40 100, EventfdCtxPut 100, SlotWrite 0 None,
           EventfdCtxFdget 9 (Some (ERR_PTR (- EBADF))),
           RequestIrq 40 (ERR_PTR (- EBADF)) 0,
           SlotWrite 0 (Some (ERR_PTR (- EBADF)))] ex_kernel2))) =
     signals (trace ex_kernel2) @ [ERR_PTR (- EBADF)]"
  by code_simp

section \<open>What a successful bind leaves alone\<close>

text \<open>
  Claim C10: a successful bind to an index \<open>v\<close> inside the table changes slot \<open>v\<close> only. The
  hardware vector identifiers of the table are pairwise distinct, as the platform hands
  them out. Then \<^verbatim>\<open>entries\<close> (every slot's identifier), \<^verbatim>\<open>nvecs\<close>, the length of the table
  and the device's MSI-X state are unchanged, and for every other slot \<open>j\<close> the bound handle
  and the handlers registered for the slot's interrupt are unchanged.
\<close>

theorem bind_frame:
  assumes ok: "table_ok gdev es" and v: "0 \<le> v" "v < nvecs (msix_info gdev)"
    and dist: "distinct (map vector es)"
    and success: "map_msix_eventfd plat gdev k fd v = Inr (0, gdev', k')"
  shows "entries (msix_info gdev') = entries (msix_info gdev) \<and>
         nvecs (msix_info gdev') = nvecs (msix_info gdev) \<and>
         length (evts (msix_info gdev')) = length (evts (msix_info gdev)) \<and>
         msix_enabled (pdev k') = msix_enabled (pdev k) \<and>
         (\<forall>j. j < length es \<and> j \<noteq> nat v \<longrightarrow>
            evts (msix_info gdev') ! j = evts (msix_info gdev) ! j \<and>
            handlers_on (vector (es ! j)) k' = handlers_on (vector (es ! j)) k)"
proof (cases "fd < 0")
  case True
  with success have "gdev' = gdev" and "k' = call PciDisableMsi k"
    by (simp_all add: bind_disable)
  then show ?thesis
    by (simp add: handlers_on_def call_def)
next
  case False
  then have fd: "0 \<le> fd" by simp
  from ok v have inr: "nat v < length es"
    by (simp add: table_ok_def) linarith
  define q where "q = vector (es ! nat v)"
  have other: "vector (es ! j) \<noteq> q" if "j < length es" "j \<noteq> nat v" for j
  proof -
    from that inr dist have "map vector es ! j \<noteq> map vector es ! nat v"
      by (simp add: nth_eq_iff_index_eq del: nth_map)
    with that inr show ?thesis
      by (simp add: q_def)
  qed
  note out = bind_outcome [OF ok fd v, of plat k, folded q_def]
  obtain new where new: "fdget plat fd = Some new" and err: "request_irq_err plat q = 0"
    using out success by (auto simp: Let_def EINVAL_def split: option.splits if_splits)
  from out success new err
  have g: "gdev' = set_evt gdev v (Some new)"
    and k: "k' = run ((case evts (msix_info gdev) ! nat v of
                   None \<Rightarrow> []
                 | Some old \<Rightarrow> [FreeIrq q old, EventfdCtxPut old, SlotWrite v None]) @
                [EventfdCtxFdget fd (Some new), RequestIrq q new 0, SlotWrite v (Some new)]) k"
    by (simp_all add: Let_def)
  have pd: "pdev k' = pdev k"
    by (simp add: k call_def split: option.splits)
  have h: "handlers_on q' k' = handlers_on q' k" if "q' \<noteq> q" for q'
    using that by (simp add: k handlers_on_free split: option.splits)
  from g pd h other show ?thesis
    by (simp add: set_evt_def)
qed

text \<open>
  On the four-vector device with vectors 0 and 2 bound, binding descriptor 5 to vector 1
  succeeds and leaves vectors 0 and 2, their handlers and the table's shape as they were.
\<close>

theorem bind_frame_witness:
  "table_ok ex_gdev2 ex_entries \<and> distinct (map vector ex_entries) \<and>
   map_msix_eventfd ex_plat ex_gdev2 ex_kernel2 5 1 =
     Inr (0, set_evt ex_gdev2 1 (Some 102),
          run [EventfdCtxFdget 5 (Some 102), RequestIrq 41 102 0, SlotWrite 1 (Some 102)]
            ex_kernel2) \<and>
   evts (msix_info (set_evt ex_gdev2 1 (Some 102))) ! 0 = Some 100 \<and>
   evts (msix_info (set_evt ex_gdev2 1 (Some 102))) ! 2 = Some 101 \<and>
   handlers_on 40
     (run [EventfdCtxFdget 5 (Some 102), RequestIrq 41 102 0, SlotWrite 1 (Some 102)]
        ex_kernel2) = [100] \<and>
   handlers_on 42
     (run [EventfdCtxFdget 5 (Some 102), RequestIrq 41 102 0, SlotWrite 1 (Some 102)]
        ex_kernel2) = [101] \<and>
   entries (msix_info (set_evt ex_gdev2 1 (Some 102))) = Some ex_entries \<and>
   nvecs (msix_info (set_evt ex_gdev2 1 (Some 102))) = 4"
proof -
  have a: "table_ok ex_gdev2 ex_entries"
    by (simp add: table_ok_def ex_gdev2_def ex_gdev_def ex_entries_def)
  have d: "distinct (map vector ex_entries)"
    by (simp add: ex_entries_def)
  have v: "(1::int) < nvecs (msix_info ex_gdev2)"
    by (simp add: ex_gdev2_def)
  have success: "map_msix_eventfd ex_plat ex_gdev2 ex_kernel2 5 1 =
     Inr (0, set_evt ex_gdev2 1 (Some 102),
          run [EventfdCtxFdget 5 (Some 102), RequestIrq 41 102 0, SlotWrite 1 (Some 102)]
            ex_kernel2)"
    by code_simp
  have before: "evts (msix_info ex_gdev2) ! 0 = Some 100" "evts (msix_info ex_gdev2) ! 2 = Some 101"
    "handlers_on 40 ex_kernel2 = [100]" "handlers_on 42 ex_kernel2 = [101]"
    "entries (msix_info ex_gdev2) = Some ex_entries" "nvecs (msix_info ex_gdev2) = 4"
    "vector (ex_entries ! 0) = 40" "vector (ex_entries ! 2) = 42" "length ex_entries = 4"
    by (simp_all add: ex_gdev2_def ex_kernel2_def handlers_on_def ex_entries_def)
  note fr = bind_frame [OF a _ v d success, simplified]
  from fr have "evts (msix_info (set_evt ex_gdev2 1 (Some 102))) ! 0 = Some 100"
    and "evts (msix_info (set_evt ex_gdev2 1 (Some 102))) ! 2 = Some 101"
    and "handlers_on 40
           (run [EventfdCtxFdget 5 (Some 102), RequestIrq 41 102 0, SlotWrite 1 (Some 102)]
              ex_kernel2) = [100]"
    and "handlers_on 42
           (run [EventfdCtxFdget 5 (Some 102), RequestIrq 41 102 0, SlotWrite 1 (Some 102)]
              ex_kernel2) = [101]"
    and "entries (msix_info (set_evt ex_gdev2 1 (Some 102))) = Some ex_entries"
    and "nvecs (msix_info (set_evt ex_gdev2 1 (Some 102))) = 4"
    using before(7,8) by (simp_all add: before(1-6,9))
  with a d success show ?thesis
    by (intro conjI)
qed

section \<open>Teardown: the loop of remove\<close>

text \<open>
  On a well-formed table the loop returns, and the calls and slot writes it makes from
  index \<open>i\<close> on are those that unbind the slots from \<open>i\<close> on.
\<close>

declare remove_loop.simps [simp del]

lemma table_ok_set_evt: "table_ok gdev es \<Longrightarrow> table_ok (set_evt gdev i e) es"
  by (simp add: table_ok_def set_evt_def)

lemma remove_loop_calls:
  "table_ok gdev es \<Longrightarrow> 0 \<le> i \<Longrightarrow>
   \<exists>gdev'. remove_loop i gdev k =
     Inr (gdev', run (unbind_calls i (drop (nat i) es)
                        (drop (nat i) (evts (msix_info gdev)))) k)"
proof (induction i gdev k rule: remove_loop.induct)
  case (1 i gdev k)
  from "1.prems" have es: "entries (msix_info gdev) = Some es"
    and len: "int (length es) = nvecs (msix_info gdev)"
    and len': "length (evts (msix_info gdev)) = length es"
    by (simp_all add: table_ok_def)
  show ?case
  proof (cases "i < nvecs (msix_info gdev)")
    case False
    with len len' "1.prems" show ?thesis
      by (subst remove_loop.simps) simp
  next
    case True
    with len "1.prems" have inr: "nat i < length es" by linarith
    have suc: "nat (i + 1) = Suc (nat i)"
      using "1.prems" by simp
    have d1: "drop (nat i) es = es ! nat i # drop (Suc (nat i)) es"
      using inr by (simp add: Cons_nth_drop_Suc)
    have d2: "drop (nat i) (evts (msix_info gdev)) =
        evts (msix_info gdev) ! nat i # drop (Suc (nat i)) (evts (msix_info gdev))"
      using inr len' by (simp add: Cons_nth_drop_Suc)
    show ?thesis
    proof (cases "evts (msix_info gdev) ! nat i")
      case None
      from "1.IH"(1) [OF True es _ None "1.prems"(1)] True inr len len' "1.prems"
      obtain gdev' where "remove_loop (i + 1) gdev k =
          Inr (gdev', run (unbind_calls (i + 1) (drop (nat (i + 1)) es)
                             (drop (nat (i + 1)) (evts (msix_info gdev)))) k)"
        by auto
      with True es inr len' None "1.prems" show ?thesis
        by (subst remove_loop.simps) (simp add: d1 d2 suc)
    next
      case (Some e)
      have ok': "table_ok (set_evt gdev i None) es"
        using "1.prems"(1) by (rule table_ok_set_evt)
      from "1.IH"(2) [OF True es _ Some ok'] True inr len len' "1.prems"
      obtain gdev' where "remove_loop (i + 1) (set_evt gdev i None)
            (slot_written i None (eventfd_ctx_put e (free_irq (vector (es ! nat i)) e k))) =
          Inr (gdev', run (unbind_calls (i + 1) (drop (nat (i + 1)) es)
                 (drop (nat (i + 1)) (evts (msix_info (set_evt gdev i None)))))
                 (slot_written i None
                    (eventfd_ctx_put e (free_irq (vector (es ! nat i)) e k))))"
        by auto
      with True es inr len' Some "1.prems" show ?thesis
        by (subst remove_loop.simps)
           (simp add: d1 d2 suc set_evt_def eventfd_ctx_put_def free_irq_def
              slot_written_def)
    qed
  qed
qed

lemma list_all_states_append:
  "list_all P (states (xs @ ys) k) = (list_all P (states xs k) \<and> list_all P (states ys (run xs k)))"
  by (induction xs arbitrary: k) (cases ys; auto)+

lemma unbind_calls_irq_actions:
  "mset (irq_actions k) = mset (slot_regs es evs) + M \<Longrightarrow>
   mset (irq_actions (run (unbind_calls i es evs) k)) = M"
proof (induction i es evs arbitrary: k rule: unbind_calls.induct)
  case (1 i en es e evs)
  from "1.prems"
  have "mset (irq_actions (call (SlotWrite i None)
                             (call (EventfdCtxPut e) (call (FreeIrq (vector en) e) k))))
      = mset (slot_regs es evs) + M"
    by simp
  from "1.IH" [OF this] show ?case by simp
qed simp_all

lemma unbind_calls_held:
  "mset (held (run (unbind_calls i es evs) k)) =
     mset (held k) - mset (map snd (slot_regs es evs))"
proof (induction i es evs arbitrary: k rule: unbind_calls.induct)
  case (1 i en es e evs)
  show ?case
    by (simp add: "1.IH" del: mset_map)
qed simp_all

lemma unbind_calls_pdev:
  "pdev (run (unbind_calls i es evs) k) = pdev k \<and>
   uio_registered (run (unbind_calls i es evs) k) = uio_registered k \<and>
   drvdata_set (run (unbind_calls i es evs) k) = drvdata_set k"
  by (induction i es evs arbitrary: k rule: unbind_calls.induct) (simp_all add: call_def)

lemma unbind_calls_live:
  "live k \<Longrightarrow> mset (slot_regs es evs) \<subseteq># mset (irq_actions k) \<Longrightarrow>
   list_all live (states (unbind_calls i es evs) k)"
proof (induction i es evs arbitrary: k rule: unbind_calls.induct)
  case (1 i en es e evs)
  from "1.prems"(2) have mem: "(vector en, e) \<in> set (irq_actions k)"
    by (metis slot_regs.simps(1) mset.simps(2) mset_subset_eq_insertD set_mset_mset)
  from "1.prems"(1) mem have l2: "live (call (EventfdCtxPut e) (call (FreeIrq (vector en) e) k))"
    by (rule live_free_put)
  then have l3: "live (call (SlotWrite i None)
                         (call (EventfdCtxPut e) (call (FreeIrq (vector en) e) k)))"
    by simp
  from "1.prems"(2) mem
  have "mset (slot_regs es evs) \<subseteq>#
        mset (irq_actions (call (SlotWrite i None)
                             (call (EventfdCtxPut e) (call (FreeIrq (vector en) e) k))))"
    by (simp add: insert_subset_eq_iff)
  from "1.IH" [OF l3 this] "1.prems"(1) l2 show ?case
    by (simp add: live_free)
qed simp_all

lemma list_all_states_last: "list_all P (states cs k) \<Longrightarrow> P (run cs k)"
  by (induction cs arbitrary: k) simp_all

text \<open>
  Claim C6 says that teardown deregisters every interrupt path before it releases any
  handle. The loop does not: it goes slot by slot. On the four-vector device with vectors
  0 and 2 bound, the reference to handle 100 is released before the handler of vector 2 is
  deregistered.
\<close>

theorem unbind_all_interleaves:
  "remove_pci ex_gdev2 ex_kernel2 =
     Inr (run [UioUnregisterDevice, FreeIrq 40 100, EventfdCtxPut 100, SlotWrite 0 None,
               FreeIrq 42 101, EventfdCtxPut 101, SlotWrite 2 None, PciDisableMsix,
               PciDisableDevice] ex_kernel2) \<and>
   \<not> frees_then_puts [UioUnregisterDevice, FreeIrq 40 100, EventfdCtxPut 100, SlotWrite 0 None,
                       FreeIrq 42 101, EventfdCtxPut 101, SlotWrite 2 None, PciDisableMsix,
                       PciDisableDevice]"
  by code_simp

text \<open>
  Claim C6, as amended: at teardown, for each bound slot in index order, the slot's
  interrupt path is deregistered, then the slot's handle is released and the slot emptied,
  before the next slot is looked at. The table is well formed, the registered handlers are exactly those
  of the bound slots, and every registered handler is backed by a held reference. Then
  \<open>remove\<close> returns, after the calls \<open>cs\<close>; in every state it goes through, each registered
  handler is still backed by a held reference; at the end no handler is registered, one
  reference has been released for every bound slot, MSI-X is disabled, and the firing of
  any interrupt signals no handle.
\<close>

theorem unbind_all_outcome:
  assumes ok: "table_ok gdev es" and rm: "regs_match gdev es k" and lv: "live k"
  shows "let cs = UioUnregisterDevice # unbind_calls 0 es (evts (msix_info gdev)) @
                  [PciDisableMsix, PciDisableDevice]
         in remove_pci gdev k = Inr (run cs k) \<and>
            list_all live (states cs k) \<and>
            irq_actions (run cs k) = [] \<and>
            mset (held (run cs k)) =
              mset (held k) - mset (map snd (slot_regs es (evts (msix_info gdev)))) \<and>
            \<not> msix_enabled (pdev (run cs k)) \<and>
            (\<forall>q. trace (deliver_irq q (run cs k)) = trace (run cs k))"
proof -
  define k0 where "k0 = call UioUnregisterDevice k"
  define us where "us = unbind_calls 0 es (evts (msix_info gdev))"
  define k1 where "k1 = run us k0"
  have fr0: "irq_actions k0 = irq_actions k" "held k0 = held k"
    by (simp_all add: k0_def call_def)
  from ok have es: "entries (msix_info gdev) = Some es"
    by (simp add: table_ok_def)
  from remove_loop_calls [OF ok, of 0 k0]
  obtain gdev' where loop: "remove_loop 0 gdev k0 = Inr (gdev', k1)"
    by (auto simp: k1_def us_def)
  have res: "remove_pci gdev k = Inr (run (UioUnregisterDevice # us @ [PciDisableMsix, PciDisableDevice]) k)"
    by (simp add: remove_pci_def es loop uio_unregister_device_def k0_def [symmetric]
        run_append k1_def [symmetric] pci_disable_device_def pci_disable_msix_def)
  from rm fr0 have "mset (irq_actions k0) = mset (slot_regs es (evts (msix_info gdev))) + {#}"
    by (simp add: regs_match_def)
  then have "mset (irq_actions k1) = {#}"
    unfolding k1_def us_def by (rule unbind_calls_irq_actions)
  then have a1: "irq_actions k1 = []" by simp
  have h1: "mset (held k1) = mset (held k) - mset (map snd (slot_regs es (evts (msix_info gdev))))"
    unfolding k1_def us_def by (simp add: unbind_calls_held fr0 del: mset_map)
  from lv fr0 have l0: "live k0" by (simp add: live_def)
  from rm fr0 have "mset (slot_regs es (evts (msix_info gdev))) \<subseteq># mset (irq_actions k0)"
    by (simp add: regs_match_def)
  with l0 have ls: "list_all live (states us k0)"
    unfolding us_def by (rule unbind_calls_live)
  then have l1: "live k1"
    unfolding k1_def by (rule list_all_states_last)
  have fr1: "irq_actions (call PciDisableMsix k1) = irq_actions k1"
    "held (call PciDisableMsix k1) = held k1"
    "irq_actions (call PciDisableDevice (call PciDisableMsix k1)) = irq_actions k1"
    "held (call PciDisableDevice (call PciDisableMsix k1)) = held k1"
    "\<not> msix_enabled (pdev (call PciDisableDevice (call PciDisableMsix k1)))"
    by (simp_all add: call_def)
  have l23: "live (call PciDisableMsix k1)" "live (call PciDisableDevice (call PciDisableMsix k1))"
    using l1 fr1 by (simp_all add: live_def)
  define cs where "cs = UioUnregisterDevice # us @ [PciDisableMsix, PciDisableDevice]"
  have run_cs: "run cs k = call PciDisableDevice (call PciDisableMsix k1)"
    by (simp add: cs_def run_append k0_def k1_def)
  have all_live: "list_all live (states cs k)"
    using lv ls l1 l23
    by (simp add: cs_def list_all_states_append k0_def [symmetric] k1_def [symmetric])
  have quiet: "\<forall>q. trace (deliver_irq q (run cs k)) = trace (run cs k)"
    by (simp add: run_cs deliver_irq_trace handlers_on_def fr1 a1)
  have "remove_pci gdev k = Inr (run cs k)"
    using res by (simp only: cs_def)
  moreover have "irq_actions (run cs k) = []"
    by (simp add: run_cs fr1 a1)
  moreover have "mset (held (run cs k)) =
      mset (held k) - mset (map snd (slot_regs es (evts (msix_info gdev))))"
    using h1 by (simp only: run_cs fr1)
  moreover have "\<not> msix_enabled (pdev (run cs k))"
    by (simp add: run_cs fr1)
  ultimately show ?thesis
    unfolding Let_def us_def [symmetric] cs_def [symmetric]
    using all_live quiet by (intro conjI)
qed

text \<open>
  On the four-vector device with vectors 0 and 2 bound: both handlers are deregistered,
  both references released, and a firing of interrupt 40 afterwards adds nothing to the log.
\<close>

theorem unbind_all_outcome_witness:
  "table_ok ex_gdev2 ex_entries \<and> regs_match ex_gdev2 ex_entries ex_kernel2 \<and> live ex_kernel2 \<and>
   remove_pci ex_gdev2 ex_kernel2 =
     Inr (run [UioUnregisterDevice, FreeIrq 40 100, EventfdCtxPut 100, SlotWrite 0 None,
               FreeIrq 42 101, EventfdCtxPut 101, SlotWrite 2 None, PciDisableMsix,
               PciDisableDevice] ex_kernel2) \<and>
   irq_actions (run [UioUnregisterDevice, FreeIrq 40 100, EventfdCtxPut 100, SlotWrite 0 None,
                     FreeIrq 42 101, EventfdCtxPut 101, SlotWrite 2 None, PciDisableMsix,
                     PciDisableDevice] ex_kernel2) = [] \<and>
   held (run [UioUnregisterDevice, FreeIrq 40 100, EventfdCtxPut 100, SlotWrite 0 None,
              FreeIrq 42 101, EventfdCtxPut 101, SlotWrite 2 None, PciDisableMsix,
              PciDisableDevice] ex_kernel2) = [] \<and>
   trace (deliver_irq 40
            (run [UioUnregisterDevice, FreeIrq 40 100, EventfdCtxPut 100, SlotWrite 0 None,
                  FreeIrq 42 101, EventfdCtxPut 101, SlotWrite 2 None, PciDisableMsix,
                  PciDisableDevice] ex_kernel2)) =
     trace ex_kernel2 @
       [UioUnregisterDevice, FreeIrq 40 100, EventfdCtxPut 100, SlotWrite 0 None,
        FreeIrq 42 101, EventfdCtxPut 101, SlotWrite 2 None, PciDisableMsix,
        PciDisableDevice]"
proof -
  have a: "table_ok ex_gdev2 ex_entries"
    by (simp add: table_ok_def ex_gdev2_def ex_gdev_def ex_entries_def)
  have rm: "regs_match ex_gdev2 ex_entries ex_kernel2"
    by (simp add: regs_match_def ex_gdev2_def ex_entries_def ex_kernel2_def)
  have lv: "live ex_kernel2"
    by (simp add: live_def ex_kernel2_def)
  have ev: "unbind_calls 0 ex_entries (evts (msix_info ex_gdev2)) =
      [FreeIrq 40 100, EventfdCtxPut 100, SlotWrite 0 None,
       FreeIrq 42 101, EventfdCtxPut 101, SlotWrite 2 None]"
    "slot_regs ex_entries (evts (msix_info ex_gdev2)) = [(40, 100), (42, 101)]"
    "held ex_kernel2 = [101, 100]"
    by (simp_all add: ex_gdev2_def ex_entries_def ex_kernel2_def)
  note t = unbind_all_outcome [OF a rm lv, unfolded Let_def ev, simplified]
  from t a rm lv show ?thesis
    by simp
qed

section \<open>The vector table allocator\<close>

text \<open>The loop that numbers the entries keeps the array's length and sets entry \<open>j\<close> to \<open>j\<close>.\<close>

declare entries_loop.simps [simp del]

lemma entries_loop_length [simp]: "length (entries_loop i n es) = length es"
proof (induction i n es rule: entries_loop.induct)
  case (1 i n es)
  then show ?case
    by (subst entries_loop.simps) simp
qed

lemma entries_loop_nth:
  "0 \<le> i \<Longrightarrow> j < length es \<Longrightarrow>
   entries_loop i n es ! j =
     (if nat i \<le> j \<and> int j < n then (es ! j)\<lparr>entry := word_of_int (int j)\<rparr> else es ! j)"
proof (induction i n es rule: entries_loop.induct)
  case (1 i n es)
  show ?case
  proof (cases "i < n")
    case False
    with "1.prems" show ?thesis
      by (subst entries_loop.simps) auto
  next
    case True
    from "1.prems" have "0 \<le> i + 1" by simp
    from "1.IH" [OF True this] "1.prems"
    have "entries_loop (i + 1) n (es[nat i := (es ! nat i)\<lparr>entry := word_of_int i\<rparr>]) ! j =
        (if nat (i + 1) \<le> j \<and> int j < n
         then (es[nat i := (es ! nat i)\<lparr>entry := word_of_int i\<rparr>] ! j)\<lparr>entry := word_of_int (int j)\<rparr>
         else es[nat i := (es ! nat i)\<lparr>entry := word_of_int i\<rparr>] ! j)"
      by simp
    note step = this
    have unf: "entries_loop i n es =
        entries_loop (i + 1) n (es[nat i := (es ! nat i)\<lparr>entry := word_of_int i\<rparr>])"
      using True by (subst entries_loop.simps) simp
    show ?thesis
    proof (cases "j = nat i")
      case eq: True
      from "1.prems" True step [unfolded eq] show ?thesis
        unfolding eq unf by (simp add: nat_add_distrib)
    next
      case False
      with True "1.prems" step show ?thesis
        unfolding unf by (auto simp: nat_add_distrib)
    qed
  qed
qed

text \<open>
  Claim C5: for every valid vector count \<open>N\<close> reported by the hardware, the allocation asks
  for exactly \<open>N\<close> vectors, all or nothing, and on success yields \<open>N\<close> slots, all unbound.
  \<open>N\<close> is positive and the device's vector delivery is not yet enabled. When the memory for
  the table cannot be had, nothing is asked of the platform. Otherwise the one request made
  is for exactly \<open>N\<close> vectors. When the platform can grant fewer, the allocation fails, the
  table is freed (\<^verbatim>\<open>entries\<close> is \<^verbatim>\<open>NULL\<close>) and the device is as before, vector delivery
  disabled. When it succeeds, the table has \<open>N\<close> entries numbered from 0, each with the
  interrupt number the platform gave it, \<open>N\<close> handle slots that are all empty,
  \<^verbatim>\<open>nvecs = N\<close>, and vector delivery is enabled.
\<close>

theorem init_msix_all_or_nothing:
  assumes valid: "0 < msix_vec_count plat" and fresh: "\<not> msix_enabled (pdev k)"
  shows "let N = msix_vec_count plat;
             unbound = replicate (nat N) None
         in if \<not> kzalloc_ok plat (kzalloc_size N) then
              pci_generic_init_msix plat gdev k = (- ENOMEM, gdev, k)
            else if int (msix_avail plat) < N then
              pci_generic_init_msix plat gdev k =
                (- ENOSPC, gdev\<lparr>msix_info := \<lparr>entries = None, evts = unbound, nvecs = N\<rparr>\<rparr>,
                 call (PciEnableMsixExact N (- ENOSPC)) k) \<and>
              pdev (call (PciEnableMsixExact N (- ENOSPC)) k) = pdev k
            else
              (\<exists>es. pci_generic_init_msix plat gdev k =
                      (0, gdev\<lparr>msix_info := \<lparr>entries = Some es, evts = unbound, nvecs = N\<rparr>\<rparr>,
                       call (PciEnableMsixExact N 0) k) \<and>
                    int (length es) = N \<and> length unbound = length es \<and>
                    list_all (\<lambda>ev. ev = None) unbound \<and>
                    (\<forall>i < length es. entry (es ! i) = of_nat i \<and>
                                      vector (es ! i) = msix_irq plat (unat (entry (es ! i)))) \<and>
                    msix_enabled (pdev (call (PciEnableMsixExact N 0) k)))"
proof -
  define N where "N = msix_vec_count plat"
  define es1 where "es1 = entries_loop 0 N (replicate (nat N) \<lparr>vector = 0, entry = 0\<rparr>)"
  define es2 where "es2 = map (\<lambda>en. en\<lparr>vector := msix_irq plat (unat (entry en))\<rparr>) es1"
  have len: "length es2 = nat N"
    by (simp add: es2_def es1_def)
  have nth: "entry (es2 ! i) = of_nat i \<and> vector (es2 ! i) = msix_irq plat (unat (entry (es2 ! i)))"
    if "i < length es2" for i
  proof -
    from that len have "i < nat N" by simp
    moreover from this have "int i < N" by linarith
    ultimately show ?thesis
      by (simp add: es2_def es1_def entries_loop_nth)
  qed
  from valid have pos: "0 < N" "\<not> N < 1" "N \<noteq> 0"
    by (simp_all add: N_def)
  show ?thesis
  proof (cases "kzalloc_ok plat (kzalloc_size N)")
    case False
    with pos show ?thesis
      by (simp add: pci_generic_init_msix_def Let_def N_def [symmetric])
  next
    case True
    show ?thesis
    proof (cases "int (msix_avail plat) < N")
      case less: True
      with True pos fresh show ?thesis
        by (simp add: pci_generic_init_msix_def Let_def N_def [symmetric]
            pci_enable_msix_exact_def call_def ENOSPC_def)
    next
      case False
      with True pos fresh len nth
      have "pci_generic_init_msix plat gdev k =
              (0, gdev\<lparr>msix_info := \<lparr>entries = Some es2, evts = replicate (nat N) None, nvecs = N\<rparr>\<rparr>,
               call (PciEnableMsixExact N 0) k)"
        by (simp add: pci_generic_init_msix_def Let_def N_def [symmetric]
            pci_enable_msix_exact_def es2_def es1_def)
      with True False pos len nth show ?thesis
        unfolding Let_def N_def [symmetric]
        by (auto simp: call_def list_all_iff intro!: exI [of _ es2])
    qed
  qed
qed

text \<open>The platform of the example grants the four vectors the device reports.\<close>

theorem init_msix_all_or_nothing_witness:
  "0 < msix_vec_count ex_plat \<and> \<not> msix_enabled (pdev ex_kernel) \<and>
   (\<exists>es. pci_generic_init_msix ex_plat gdev_zero ex_kernel =
           (0, gdev_zero\<lparr>msix_info := \<lparr>entries = Some es, evts = [None, None, None, None],
                                         nvecs = 4\<rparr>\<rparr>,
            call (PciEnableMsixExact 4 0) ex_kernel) \<and>
         length es = 4 \<and> msix_enabled (pdev (call (PciEnableMsixExact 4 0) ex_kernel)))"
proof -
  have valid: "0 < msix_vec_count ex_plat"
    by (simp add: ex_plat_def)
  have fresh: "\<not> msix_enabled (pdev ex_kernel)"
    by (simp add: ex_kernel_def ex_pdev_def)
  have p: "msix_vec_count ex_plat = 4" "kzalloc_ok ex_plat sz" "msix_avail ex_plat = 4" for sz
    by (simp_all add: ex_plat_def)
  have r: "replicate 4 None = [None, None, None, None]"
    by (simp add: numeral_eq_Suc)
  from init_msix_all_or_nothing [OF valid fresh, of gdev_zero] valid fresh show ?thesis
    by (simp add: Let_def p r) blast
qed

section \<open>Claiming a device\<close>

text \<open>
  Claim C4 says that \<open>probe\<close> fails when the vector table cannot be allocated. It does
  not: \<open>probe\<close> does not look at what \<^verbatim>\<open>pci_generic_init_msix\<close> returned. The device of the
  example reports four vectors and no legacy line, the platform can grant two: the
  allocation fails with \<^verbatim>\<open>-ENOSPC\<close>, and \<open>probe\<close> registers the device and returns 0.
\<close>

theorem probe_swallows_msix_failure:
  "pdev_irq (pdev ex_kernel) = 0 \<and> msix_vec_count ex_plat_two = 4 \<and> msix_avail ex_plat_two = 2 \<and>
   fst (pci_generic_init_msix ex_plat_two
          (gdev_zero\<lparr>info := (info gdev_zero)\<lparr>has_ioctl := True\<rparr>\<rparr>)
          (call (PciEnableDevice 0) ex_kernel)) = - ENOSPC \<and>
   probe ex_plat_two ex_kernel =
     (0,
      Some \<lparr>info = \<lparr>info_irq = 0, irq_shared = False, has_handler = False, has_ioctl = True\<rparr>,
            msix_info = \<lparr>entries = None, evts = [None, None, None, None], nvecs = 4\<rparr>\<rparr>,
      run [PciEnableDevice 0, PciEnableMsixExact 4 (- ENOSPC), UioRegisterDevice 0,
           PciSetDrvdata] ex_kernel)"
  by code_simp

lemma init_msix_failure_no_table:
  assumes "pci_generic_init_msix plat gdev k = (err, g, k')" and "err \<noteq> 0"
    and "entries (msix_info gdev) = None"
  shows "entries (msix_info g) = None"
  using assms
  by (auto simp: pci_generic_init_msix_def Let_def pci_enable_msix_exact_def
      EINVAL_def ENOSPC_def split: if_splits prod.splits)

text \<open>
  Claim C4, as amended: when the device reports no legacy line and the vector table
  allocation fails, \<open>probe\<close> does not fail for that reason. The device could be enabled and
  the driver's own memory allocated. Then the device is left without a vector table, and
  \<open>probe\<close> returns what \<^verbatim>\<open>uio_register_device\<close> returns: 0, with the device claimed, when
  the registration succeeds, and the registration's error otherwise.
\<close>

theorem probe_returns_registration_result:
  assumes noirq: "pdev_irq (pdev k) = 0" and en: "enable_device_err plat = 0"
    and mem: "kzalloc_gdev_ok plat"
    and init: "pci_generic_init_msix plat
                 (gdev_zero\<lparr>info := (info gdev_zero)\<lparr>has_ioctl := True\<rparr>\<rparr>)
                 (call (PciEnableDevice 0) k) = (err, g, k')"
    and fail: "err \<noteq> 0"
  shows "entries (msix_info g) = None \<and>
         probe plat k =
           (if uio_register_err plat = 0
            then (0, Some g, run [UioRegisterDevice 0, PciSetDrvdata] k')
            else (uio_register_err plat, None,
                  run [UioRegisterDevice (uio_register_err plat), PciDisableDevice] k'))"
proof -
  have "entries (msix_info g) = None"
    using init fail by (rule init_msix_failure_no_table) (simp add: gdev_zero_def)
  moreover have "pdev_irq (pdev (call (PciEnableDevice 0) k)) = 0"
    using noirq by (simp add: call_def)
  then have "probe plat k =
           (if uio_register_err plat = 0
            then (0, Some g, run [UioRegisterDevice 0, PciSetDrvdata] k')
            else (uio_register_err plat, None,
                  run [UioRegisterDevice (uio_register_err plat), PciDisableDevice] k'))"
    using en mem init
    by (simp add: probe_def pci_enable_device_def Let_def uio_register_device_def
        pci_set_drvdata_def pci_disable_device_def)
  ultimately show ?thesis by simp
qed

theorem probe_returns_registration_result_witness:
  "pdev_irq (pdev ex_kernel) = 0 \<and> enable_device_err ex_plat_two = 0 \<and>
   kzalloc_gdev_ok ex_plat_two \<and> - ENOSPC \<noteq> 0 \<and>
   pci_generic_init_msix ex_plat_two
     (gdev_zero\<lparr>info := (info gdev_zero)\<lparr>has_ioctl := True\<rparr>\<rparr>)
     (call (PciEnableDevice 0) ex_kernel) =
       (- ENOSPC,
        gdev_zero\<lparr>info := (info gdev_zero)\<lparr>has_ioctl := True\<rparr>,
                  msix_info := \<lparr>entries = None, evts = [None, None, None, None], nvecs = 4\<rparr>\<rparr>,
        run [PciEnableDevice 0, PciEnableMsixExact 4 (- ENOSPC)] ex_kernel) \<and>
   probe ex_plat_two ex_kernel =
     (0,
      Some (gdev_zero\<lparr>info := (info gdev_zero)\<lparr>has_ioctl := True\<rparr>,
                      msix_info := \<lparr>entries = None, evts = [None, None, None, None],
                                    nvecs = 4\<rparr>\<rparr>),
      run [UioRegisterDevice 0, PciSetDrvdata]
        (run [PciEnableDevice 0, PciEnableMsixExact 4 (- ENOSPC)] ex_kernel))"
proof -
  have noirq: "pdev_irq (pdev ex_kernel) = 0"
    by (simp add: ex_kernel_def ex_pdev_def)
  have en: "enable_device_err ex_plat_two = 0" and mem: "kzalloc_gdev_ok ex_plat_two"
    and reg: "uio_register_err ex_plat_two = 0"
    by (simp_all add: ex_plat_two_def ex_plat_def)
  have fail: "- ENOSPC \<noteq> 0"
    by (simp add: ENOSPC_def)
  have init: "pci_generic_init_msix ex_plat_two
     (gdev_zero\<lparr>info := (info gdev_zero)\<lparr>has_ioctl := True\<rparr>\<rparr>)
     (call (PciEnableDevice 0) ex_kernel) =
       (- ENOSPC,
        gdev_zero\<lparr>info := (info gdev_zero)\<lparr>has_ioctl := True\<rparr>,
                  msix_info := \<lparr>entries = None, evts = [None, None, None, None], nvecs = 4\<rparr>\<rparr>,
        run [PciEnableDevice 0, PciEnableMsixExact 4 (- ENOSPC)] ex_kernel)"
    by code_simp
  from probe_returns_registration_result [OF noirq en mem init fail]
  have "probe ex_plat_two ex_kernel =
     (0,
      Some (gdev_zero\<lparr>info := (info gdev_zero)\<lparr>has_ioctl := True\<rparr>,
                      msix_info := \<lparr>entries = None, evts = [None, None, None, None],
                                    nvecs = 4\<rparr>\<rparr>),
      run [UioRegisterDevice 0, PciSetDrvdata]
        (run [PciEnableDevice 0, PciEnableMsixExact 4 (- ENOSPC)] ex_kernel))"
    by (simp add: reg)
  with noirq en mem fail init show ?thesis
    by (intro conjI)
qed

text \<open>
  \<open>probe\<close> enables the device first. When \<^verbatim>\<open>pci_enable_device\<close> fails, \<open>probe\<close> returns its
  error at once and the check of the interrupt disable bit is not reached.
\<close>

lemma probe_enable_failure:
  "enable_device_err plat \<noteq> 0 \<Longrightarrow>
   probe plat k =
     (enable_device_err plat, None, run [PciEnableDevice (enable_device_err plat)] k)"
  by (simp add: probe_def pci_enable_device_def)

text \<open>
  Claim C8: a device that reports a legacy line and does not support independent
  pending/mask inspection is refused with \<^verbatim>\<open>-ENODEV\<close>, and no hardware resource remains
  enabled afterwards. The check is made on a device that \<^verbatim>\<open>pci_enable_device\<close> has enabled.
  Then \<open>probe\<close> returns \<^verbatim>\<open>-ENODEV\<close> and no device data; the two calls it made are
  \<^verbatim>\<open>pci_enable_device\<close> and the \<^verbatim>\<open>pci_disable_device\<close> that undoes it; and the kernel state
  afterwards is the state before (the log apart): the enable count is back to what it was,
  nothing is registered and no driver data is set.
\<close>

theorem probe_refuses_unmaskable_legacy_device:
  assumes irq: "pdev_irq (pdev k) \<noteq> 0" and nomask: "\<not> intx_mask_supported plat"
    and enabled: "enable_device_err plat = 0"
  shows "probe plat k = (- ENODEV, None, run [PciEnableDevice 0, PciDisableDevice] k) \<and>
         - ENODEV \<noteq> 0 \<and>
         enable_cnt (pdev (run [PciEnableDevice 0, PciDisableDevice] k)) = enable_cnt (pdev k) \<and>
         (run [PciEnableDevice 0, PciDisableDevice] k)\<lparr>trace := trace k\<rparr> = k"
proof -
  from irq nomask enabled
  have "probe plat k = (- ENODEV, None, run [PciEnableDevice 0, PciDisableDevice] k)"
    by (simp add: probe_def pci_enable_device_def pci_disable_device_def call_def)
  then show ?thesis
    by (simp add: ENODEV_def call_def)
qed

text \<open>
  The legacy device with interrupt line 11, on a platform that can enable it and reports
  no interrupt disable bit.
\<close>

theorem probe_refuses_unmaskable_legacy_device_witness:
  "pdev_irq (pdev ex_legacy_kernel) \<noteq> 0 \<and> \<not> intx_mask_supported ex_plat_nomask \<and>
   enable_device_err ex_plat_nomask = 0 \<and>
   probe ex_plat_nomask ex_legacy_kernel =
     (- ENODEV, None, run [PciEnableDevice 0, PciDisableDevice] ex_legacy_kernel) \<and>
   (run [PciEnableDevice 0, PciDisableDevice] ex_legacy_kernel)\<lparr>trace := trace ex_legacy_kernel\<rparr>
     = ex_legacy_kernel"
proof -
  have irq: "pdev_irq (pdev ex_legacy_kernel) \<noteq> 0"
    by (simp add: ex_legacy_kernel_def ex_kernel_def ex_pdev_def)
  have nomask: "\<not> intx_mask_supported ex_plat_nomask"
    and en: "enable_device_err ex_plat_nomask = 0"
    by (simp_all add: ex_plat_nomask_def ex_plat_def)
  note t = probe_refuses_unmaskable_legacy_device [OF irq nomask en]
  from t have p: "probe ex_plat_nomask ex_legacy_kernel =
     (- ENODEV, None, run [PciEnableDevice 0, PciDisableDevice] ex_legacy_kernel)"
    by (rule conjunct1)
  from t
  have r: "(run [PciEnableDevice 0, PciDisableDevice] ex_legacy_kernel)\<lparr>trace := trace ex_legacy_kernel\<rparr>
     = ex_legacy_kernel"
    by blast
  from irq nomask en p r show ?thesis
    by (intro conjI)
qed

section \<open>The legacy-line handler\<close>

text \<open>
  Claim C7: on every invocation, when the device's pending bit is clear the handler
  returns \<open>IRQ_NONE\<close> and changes nothing (the call is logged); when it is set the handler
  masks further delivery at the device, in the one step of \<^verbatim>\<open>pci_check_and_mask_intx\<close>, and
  returns \<open>IRQ_HANDLED\<close>. In neither case does it signal a handle, and no registration or
  reference changes.
\<close>

theorem irqhandler_outcome:
  "irqhandler k =
     (if intx_pending (pdev k)
      then (IRQ_HANDLED, k\<lparr>pdev := (pdev k)\<lparr>intx_disable := True\<rparr>,
                           trace := trace k @ [PciCheckAndMaskIntx True]\<rparr>)
      else (IRQ_NONE, k\<lparr>trace := trace k @ [PciCheckAndMaskIntx False]\<rparr>)) \<and>
   signals (trace (snd (irqhandler k))) = signals (trace k) \<and>
   irq_actions (snd (irqhandler k)) = irq_actions k \<and>
   held (snd (irqhandler k)) = held k"
  by (simp add: irqhandler_def pci_check_and_mask_intx_def call_def)

section \<open>The hypotheses above are invariants of a claimed device\<close>

text \<open>
  The properties of binding and teardown are stated for a well-formed table whose bound
  slots are exactly the registered handlers, each backed by a held reference. These hold
  after a successful allocation and are kept by every call of \<open>map_msix_eventfd\<close> that
  returns.
\<close>

lemma slot_regs_unbound [simp]: "slot_regs es (replicate n None) = []"
  by (induction es arbitrary: n) (simp, case_tac n, simp_all)

lemma slot_regs_member:
  "i < length es \<Longrightarrow> i < length evs \<Longrightarrow> evs ! i = Some e \<Longrightarrow>
   (vector (es ! i), e) \<in> set (slot_regs es evs)"
proof (induction es evs arbitrary: i rule: slot_regs.induct)
  case (1 en es e' evs)
  then show ?case by (cases i) auto
next
  case (2 en es evs)
  then show ?case by (cases i) auto
qed simp_all

lemma slot_regs_update_add:
  "i < length es \<Longrightarrow> i < length evs \<Longrightarrow>
   mset (slot_regs es (evs[i := x]))
       + (case evs ! i of None \<Rightarrow> {#} | Some e \<Rightarrow> {#(vector (es ! i), e)#}) =
     mset (slot_regs es evs)
       + (case x of None \<Rightarrow> {#} | Some e \<Rightarrow> {#(vector (es ! i), e)#})"
proof (induction es evs arbitrary: i rule: slot_regs.induct)
  case (1 en es e evs)
  show ?case
  proof (cases i)
    case 0
    then show ?thesis by (cases x) simp_all
  next
    case (Suc j)
    with "1.prems" have "j < length es" "j < length evs" by simp_all
    from "1.IH" [OF this]
    have "add_mset (vector en, e)
            (mset (slot_regs es (evs[j := x]))
              + (case evs ! j of None \<Rightarrow> {#} | Some e \<Rightarrow> {#(vector (es ! j), e)#})) =
          add_mset (vector en, e)
            (mset (slot_regs es evs)
              + (case x of None \<Rightarrow> {#} | Some e \<Rightarrow> {#(vector (es ! j), e)#}))"
      by simp
    then show ?thesis by (simp add: Suc cong: option.case_cong)
  qed
next
  case (2 en es evs)
  show ?case
  proof (cases i)
    case 0
    then show ?thesis by (cases x) simp_all
  next
    case (Suc j)
    with "2.prems" have "j < length es" "j < length evs" by simp_all
    from "2.IH" [OF this] show ?thesis by (simp add: Suc cong: option.case_cong)
  qed
qed simp_all

lemma slot_regs_update:
  assumes "i < length es" and "i < length evs"
  shows "mset (slot_regs es (evs[i := x])) =
     mset (slot_regs es evs)
       - (case evs ! i of None \<Rightarrow> {#} | Some e \<Rightarrow> {#(vector (es ! i), e)#})
       + (case x of None \<Rightarrow> {#} | Some e \<Rightarrow> {#(vector (es ! i), e)#})"
proof (cases "evs ! i")
  case None
  with slot_regs_update_add [OF assms, of x] show ?thesis by simp
next
  case (Some e)
  define N where "N = (case x of None \<Rightarrow> {#} | Some e \<Rightarrow> {#(vector (es ! i), e)#})"
  from Some assms have mem: "(vector (es ! i), e) \<in># mset (slot_regs es evs)"
    by (simp add: slot_regs_member)
  from Some slot_regs_update_add [OF assms, of x]
  have "mset (slot_regs es (evs[i := x])) + {#(vector (es ! i), e)#} = mset (slot_regs es evs) + N"
    by (simp add: N_def)
  then have "mset (slot_regs es (evs[i := x])) = mset (slot_regs es evs) + N - {#(vector (es ! i), e)#}"
    by (metis add_diff_cancel_right')
  also from mem have "\<dots> = mset (slot_regs es evs) - {#(vector (es ! i), e)#} + N"
    by (simp add: multiset_eq_iff)
  finally show ?thesis
    by (simp add: Some N_def)
qed

lemma slot_regs_vectors: "(q, e) \<in> set (slot_regs es evs) \<Longrightarrow> q \<in> vector ` set es"
  by (induction es evs rule: slot_regs.induct) auto

lemma slot_regs_filter:
  "distinct (map vector es) \<Longrightarrow> i < length es \<Longrightarrow> i < length evs \<Longrightarrow> evs ! i = Some e \<Longrightarrow>
   filter (\<lambda>a. fst a = vector (es ! i)) (slot_regs es evs) = [(vector (es ! i), e)]"
proof (induction es evs arbitrary: i rule: slot_regs.induct)
  case (1 en es e' evs)
  show ?case
  proof (cases i)
    case 0
    have "filter (\<lambda>a. fst a = vector en) (slot_regs es evs) = []"
      using "1.prems"(1) by (auto simp: filter_empty_conv dest: slot_regs_vectors)
    with 0 "1.prems" show ?thesis by simp
  next
    case (Suc j)
    with "1.prems" have "es ! j \<in> set es" "vector en \<notin> vector ` set es"
      by simp_all
    then have "vector (es ! j) \<noteq> vector en"
      by (metis imageI)
    with Suc "1.prems" "1.IH" [of j] show ?thesis by simp
  qed
next
  case (2 en es evs)
  then show ?case by (cases i) auto
qed simp_all

text \<open>
  With pairwise distinct interrupt numbers, the handler of a bound slot is the only one
  registered for the slot's interrupt.
\<close>

lemma regs_match_handlers_on:
  assumes ok: "table_ok gdev es" and rm: "regs_match gdev es k"
    and dist: "distinct (map vector es)"
    and v: "0 \<le> v" "v < nvecs (msix_info gdev)"
    and bound: "evts (msix_info gdev) ! nat v = Some old"
  shows "handlers_on (vector (es ! nat v)) k = [old]"
proof -
  from ok v have inr: "nat v < length es" "nat v < length (evts (msix_info gdev))"
    by (simp_all add: table_ok_def) linarith+
  let ?P = "\<lambda>a. fst a = vector (es ! nat v)"
  have "mset (filter ?P (irq_actions k)) = mset (filter ?P (slot_regs es (evts (msix_info gdev))))"
    using rm by (simp add: regs_match_def)
  also have "\<dots> = {#(vector (es ! nat v), old)#}"
    using slot_regs_filter [OF dist inr bound] by simp
  finally have "filter ?P (irq_actions k) = [(vector (es ! nat v), old)]"
    by (simp only: mset_single_iff)
  then show ?thesis
    by (simp add: handlers_on_def)
qed

text \<open>A successful allocation on a kernel with no handler registered sets the invariants up.\<close>

lemma init_establishes_invariants:
  assumes valid: "0 < msix_vec_count plat"
    and init: "pci_generic_init_msix plat gdev k = (0, gdev', k')"
    and clean: "irq_actions k = []"
  shows "\<exists>es. table_ok gdev' es \<and> regs_match gdev' es k' \<and> live k' \<and>
              list_all (\<lambda>ev. ev = None) (evts (msix_info gdev'))"
  using assms
  by (auto simp: pci_generic_init_msix_def Let_def pci_enable_msix_exact_def table_ok_def
      regs_match_def live_def call_def EINVAL_def ENOSPC_def ENOMEM_def list_all_iff
      split: if_splits)

text \<open>
  The interrupt numbers of the table are pairwise distinct when the platform gives
  distinct numbers to distinct entries (the entry numbers fit the 16-bit field).
\<close>

lemma init_distinct_vectors:
  assumes valid: "0 < msix_vec_count plat" and small: "msix_vec_count plat \<le> 65536"
    and inj: "inj_on (msix_irq plat) {..<nat (msix_vec_count plat)}"
    and init: "pci_generic_init_msix plat gdev k = (0, gdev', k')"
  shows "\<exists>es. entries (msix_info gdev') = Some es \<and> distinct (map vector es)"
proof -
  define N where "N = msix_vec_count plat"
  define es where "es = map (\<lambda>en. en\<lparr>vector := msix_irq plat (unat (entry en))\<rparr>)
      (entries_loop 0 N (replicate (nat N) \<lparr>vector = 0, entry = 0\<rparr>))"
  from init valid have en: "entries (msix_info gdev') = Some es"
    by (auto simp: pci_generic_init_msix_def Let_def pci_enable_msix_exact_def es_def N_def
        EINVAL_def ENOSPC_def ENOMEM_def split: if_splits)
  have len: "length es = nat N"
    by (simp add: es_def)
  have vec: "vector (es ! i) = msix_irq plat i" if "i < nat N" for i
  proof -
    from that have "int i < N" by linarith
    moreover from that small have "i < 65536" by (simp add: N_def)
    then have "unat (word_of_nat i :: 16 word) = i"
      by (simp add: unat_of_nat)
    ultimately show ?thesis
      using that by (simp add: es_def entries_loop_nth)
  qed
  have "distinct (map vector es)"
    unfolding distinct_conv_nth
  proof (intro allI impI)
    fix i j
    assume "i < length (map vector es)" "j < length (map vector es)" "i \<noteq> j"
    with len have i: "i < nat N" and j: "j < nat N" by simp_all
    with inj \<open>i \<noteq> j\<close> have "msix_irq plat i \<noteq> msix_irq plat j"
      by (auto simp: inj_on_def N_def)
    with i j len show "map vector es ! i \<noteq> map vector es ! j"
      by (simp add: vec)
  qed
  with en show ?thesis by blast
qed

text \<open>
  Every call of \<open>map_msix_eventfd\<close> that returns keeps the shape of the table and the match
  between bound slots and registered handlers. It keeps every handler backed by a held
  reference when the lookup did not answer with an error pointer.
\<close>

lemma bind_preserves_invariants:
  assumes ok: "table_ok gdev es" and rm: "regs_match gdev es k" and lv: "live k"
    and ret: "map_msix_eventfd plat gdev k fd v = Inr (r, gdev', k')"
  shows "table_ok gdev' es \<and> regs_match gdev' es k' \<and>
         ((\<forall>p. fdget plat fd = Some p \<longrightarrow> \<not> IS_ERR p) \<longrightarrow> live k')"
proof (cases "fd < 0 \<or> nvecs (msix_info gdev) \<le> v")
  case True
  with ret have "gdev' = gdev" and "irq_actions k' = irq_actions k" and "held k' = held k"
    by (auto simp: map_msix_eventfd_def pci_disable_msi_def call_def split: if_splits)
  with ok rm lv show ?thesis
    by (simp add: regs_match_def live_def)
next
  case False
  then have fd: "0 \<le> fd" and hi: "v < nvecs (msix_info gdev)" by simp_all
  have lo: "0 \<le> v"
  proof (rule ccontr)
    assume "\<not> 0 \<le> v"
    with ok fd have "map_msix_eventfd plat gdev k fd v = Inl OutOfBounds"
      by (simp add: bind_negative_index)
    with ret show False by simp
  qed
  from ok lo hi have inr: "nat v < length es" "nat v < length (evts (msix_info gdev))"
    by (simp_all add: table_ok_def) linarith+
  define q where "q = vector (es ! nat v)"
  note out = bind_outcome [OF ok fd lo hi, of plat k, folded q_def]
  note upd = slot_regs_update [OF inr, folded q_def]
  have tab: "table_ok (set_evt gdev v x) es" for x
    using ok by (simp add: table_ok_def set_evt_def)
  have ev: "evts (msix_info (set_evt gdev v x)) = (evts (msix_info gdev))[nat v := x]" for x
    by (simp add: set_evt_def)
  show ?thesis
  proof (cases "evts (msix_info gdev) ! nat v")
    case None
    with out ret rm lv tab show ?thesis
      by (auto simp: Let_def regs_match_def ev upd live_fdget live_fdget_request
          live_request_failed_put split: option.splits if_splits)
  next
    case (Some old)
    with inr have "(q, old) \<in> set (slot_regs es (evts (msix_info gdev)))"
      by (simp add: q_def slot_regs_member)
    with rm have mem: "(q, old) \<in> set (irq_actions k)"
      by (metis regs_match_def set_mset_mset)
    with lv have l2: "live (call (EventfdCtxPut old) (call (FreeIrq q old) k))"
      by (simp add: live_free_put)
    from Some out ret rm tab l2 mem show ?thesis
      by (auto simp: Let_def regs_match_def ev upd live_fdget live_fdget_request
          live_request_failed_put split: option.splits if_splits)
  qed
qed

end
